theory Spec2Isabelle
  imports Complex_Main
begin

section \<open>The schema of db_setup.sql\<close>

text \<open>
  Every table is the list of its rows. The money columns are \<^verbatim>\<open>DECIMAL(10,2)\<close>:
  a fixed-point number with two fractional digits, held here as the integer number of
  hundredths (129.99 is 12999). The key of a table with \<^verbatim>\<open>AUTO_INCREMENT\<close> is
  chosen by the server: the model takes the chosen key from the environment of the
  statement and keeps the \<^verbatim>\<open>PRIMARY KEY\<close> check, so that whatever is proved holds for
  every key the server can hand out. Of Customer and Salesperson only the key column
  plays a part in a sale (the foreign keys of Sale).
\<close>

record product =
  product_id :: int
  name :: string
  category :: string
  price :: int
  stock :: int
  description :: "string option"

record sale =
  sale_id :: int
  customer_id :: int
  salesperson_id :: "int option"
  sale_date :: int
  total_amount :: int

record sale_item =
  sale_item_id :: int
  item_sale_id :: int
  item_product_id :: int
  quantity :: int
  item_price :: int

record payment =
  payment_id :: int
  payment_sale_id :: int
  mode :: string
  status :: string

record database =
  Customer :: "int list"
  Salesperson :: "int list"
  Product :: "product list"
  Sale :: "sale list"
  Sale_Item :: "sale_item list"
  Payment :: "payment list"

text \<open>
  The user variable \<^verbatim>\<open>@from_make_sale\<close> belongs to the connection (the session), not
  to the database: it is \<^verbatim>\<open>NULL\<close> on a fresh connection, no \<^verbatim>\<open>ROLLBACK\<close> restores it,
  and it keeps its value when the connection goes back to the pool of db.js.
\<close>

record session =
  from_make_sale :: "int option"

section \<open>Statements, errors and the server\<close>

datatype stmt =
    Select_Product
  | Insert_Sale
  | Insert_Sale_Item
  | Update_Product
  | Update_Sale
  | Insert_Payment
  | Commit
  | Update_Payment

datatype sql_error =
    Signal string
  | Check_Violated string
  | Foreign_Key_Violated string
  | Not_Null_Violated string
  | Duplicate_Key string
  | Out_Of_Range string
  | Data_Too_Long string
  | Server_Error stmt

text \<open>
  What a statement meets on the server and the script does not fix:
  \<^item> \<open>fails\<close>: the server raises an error at that statement for a reason outside the
    tables (deadlock victim, lock wait timeout, full disk);
  \<^item> \<open>check_constraints\<close>: whether the server enforces the \<^verbatim>\<open>CHECK\<close> clauses (MySQL
    from 8.0.16 and MariaDB from 10.2.1 do, earlier servers parse and ignore them);
  \<^item> \<open>now\<close>: the value of \<^verbatim>\<open>NOW()\<close>;
  \<^item> the keys \<^verbatim>\<open>AUTO_INCREMENT\<close> generates for the three tables a sale writes.
  Out-of-range numbers are errors, as in the strict SQL mode that is the default of the
  servers named above.
\<close>

record env =
  fails :: "stmt \<Rightarrow> bool"
  check_constraints :: bool
  now :: int
  new_sale_id :: int
  new_sale_item_id :: int
  new_payment_id :: int

definition int_range :: "int \<Rightarrow> bool" where
  "int_range x = (- 2147483648 \<le> x \<and> x \<le> 2147483647)"

definition decimal_10_2 :: "int \<Rightarrow> bool" where
  "decimal_10_2 x = (- 9999999999 \<le> x \<and> x \<le> 9999999999)"

definition ifnull :: "'a option \<Rightarrow> 'a \<Rightarrow> 'a" where
  "ifnull x d = (case x of None \<Rightarrow> d | Some v \<Rightarrow> v)"

definition nullif :: "'a option \<Rightarrow> 'a \<Rightarrow> 'a option" where
  "nullif x y = (if x = Some y then None else x)"

text \<open>
  \<^verbatim>\<open>SELECT price, stock INTO v_price, v_stock FROM Product WHERE product_id = ? FOR UPDATE\<close>:
  the row of that key, if there is one. With no row the variables stay \<^verbatim>\<open>NULL\<close> and
  the server raises only the warning "no data", which the handler for \<^verbatim>\<open>SQLEXCEPTION\<close>
  does not catch.
\<close>

definition select_product :: "database \<Rightarrow> int \<Rightarrow> product option" where
  "select_product db pid = find (\<lambda>r. product_id r = pid) (Product db)"

text \<open>
  \<^verbatim>\<open>UPDATE Product SET stock = stock - ? WHERE product_id = ?\<close>. The new value of a
  row that is written must fit \<^verbatim>\<open>INT\<close> and, where the server enforces it, pass
  \<^verbatim>\<open>CHECK (stock >= 0)\<close>; otherwise the statement fails and writes nothing.
\<close>

definition update_product_stock ::
  "env \<Rightarrow> database \<Rightarrow> int \<Rightarrow> int \<Rightarrow> sql_error + database" where
  "update_product_stock e db pid q =
     (if fails e Update_Product then Inl (Server_Error Update_Product)
      else if list_ex (\<lambda>r. product_id r = pid \<and> \<not> int_range (stock r - q)) (Product db)
        then Inl (Out_Of_Range ''stock'')
      else if check_constraints e \<and>
              list_ex (\<lambda>r. product_id r = pid \<and> stock r - q < 0) (Product db)
        then Inl (Check_Violated ''Product'')
      else Inr (db\<lparr>Product :=
                  map (\<lambda>r. if product_id r = pid then r\<lparr>stock := stock r - q\<rparr> else r)
                    (Product db)\<rparr>))"

section \<open>The trigger trg_sale_item_after_insert\<close>

text \<open>
  The body runs after the new row is in the table. It does nothing unless
  \<^verbatim>\<open>IFNULL(@from_make_sale, 0) = 0\<close>. The subquery of the second \<^verbatim>\<open>IF\<close> is \<^verbatim>\<open>NULL\<close>
  when no row has the key, and then the \<^verbatim>\<open>IF\<close> is not taken.
\<close>

definition trg_sale_item_after_insert ::
  "env \<Rightarrow> session \<Rightarrow> database \<Rightarrow> sale_item \<Rightarrow> sql_error + database" where
  "trg_sale_item_after_insert e s db new =
     (if ifnull (from_make_sale s) 0 = 0 then
        (case update_product_stock e db (item_product_id new) (quantity new) of
           Inl err \<Rightarrow> Inl err
         | Inr db1 \<Rightarrow>
             (case find (\<lambda>r. product_id r = item_product_id new) (Product db1) of
                None \<Rightarrow> Inr db1
              | Some r \<Rightarrow>
                  if stock r < 0 then Inl (Signal ''Stock cannot be negative'')
                  else Inr db1))
      else Inr db)"

text \<open>
  \<^verbatim>\<open>INSERT INTO Sale_Item(sale_id, product_id, quantity, price) VALUES (?,?,?,?)\<close>, by
  whoever issues it: the checks of the table, the new row, then the trigger. A failure
  of the trigger fails the statement, and a failed statement leaves the tables as they
  were (the caller keeps the database it had).
\<close>

definition insert_sale_item ::
  "env \<Rightarrow> session \<Rightarrow> database \<Rightarrow> int \<Rightarrow> int \<Rightarrow> int \<Rightarrow> int \<Rightarrow> sql_error + database" where
  "insert_sale_item e s db sid pid q pr =
     (if fails e Insert_Sale_Item then Inl (Server_Error Insert_Sale_Item)
      else if \<not> int_range q then Inl (Out_Of_Range ''quantity'')
      else if \<not> decimal_10_2 pr then Inl (Out_Of_Range ''price'')
      else if check_constraints e \<and> \<not> (q > 0 \<and> pr \<ge> 0) then Inl (Check_Violated ''Sale_Item'')
      else if sid \<notin> set (map sale_id (Sale db)) then Inl (Foreign_Key_Violated ''sale_id'')
      else if pid \<notin> set (map product_id (Product db))
        then Inl (Foreign_Key_Violated ''product_id'')
      else if new_sale_item_id e \<in> set (map sale_item_id (Sale_Item db))
        then Inl (Duplicate_Key ''Sale_Item'')
      else
        (let new = \<lparr>sale_item_id = new_sale_item_id e, item_sale_id = sid,
                     item_product_id = pid, quantity = q, item_price = pr\<rparr>
         in trg_sale_item_after_insert e s (db\<lparr>Sale_Item := Sale_Item db @ [new]\<rparr>) new))"

section \<open>The other statements of make_sale\<close>

text \<open>
  \<^verbatim>\<open>INSERT INTO Sale(customer_id, salesperson_id, sale_date, total_amount)
  VALUES (p_customer_id, NULLIF(p_salesperson_id, 0), NOW(), 0)\<close>; the result carries
  \<^verbatim>\<open>LAST_INSERT_ID()\<close>.
\<close>

definition insert_sale ::
  "env \<Rightarrow> database \<Rightarrow> int option \<Rightarrow> int option \<Rightarrow> sql_error + database \<times> int" where
  "insert_sale e db cust sp =
     (if fails e Insert_Sale then Inl (Server_Error Insert_Sale)
      else
        (case cust of
           None \<Rightarrow> Inl (Not_Null_Violated ''customer_id'')
         | Some c \<Rightarrow>
             if c \<notin> set (Customer db) then Inl (Foreign_Key_Violated ''customer_id'')
             else if (case sp of None \<Rightarrow> False | Some x \<Rightarrow> x \<notin> set (Salesperson db))
               then Inl (Foreign_Key_Violated ''salesperson_id'')
             else if new_sale_id e \<in> set (map sale_id (Sale db))
               then Inl (Duplicate_Key ''Sale'')
             else Inr (db\<lparr>Sale := Sale db @
                          [\<lparr>sale_id = new_sale_id e, customer_id = c, salesperson_id = sp,
                            sale_date = now e, total_amount = 0\<rparr>]\<rparr>,
                       new_sale_id e)))"

text \<open>\<^verbatim>\<open>UPDATE Sale SET total_amount = ? WHERE sale_id = ?\<close>\<close>

definition update_sale_total ::
  "env \<Rightarrow> database \<Rightarrow> int \<Rightarrow> int \<Rightarrow> sql_error + database" where
  "update_sale_total e db sid v_total =
     (if fails e Update_Sale then Inl (Server_Error Update_Sale)
      else Inr (db\<lparr>Sale :=
                  map (\<lambda>r. if sale_id r = sid then r\<lparr>total_amount := v_total\<rparr> else r)
                    (Sale db)\<rparr>))"

text \<open>\<^verbatim>\<open>INSERT INTO Payment(sale_id, mode, status) VALUES (?,?,?)\<close>\<close>

definition insert_payment ::
  "env \<Rightarrow> database \<Rightarrow> int \<Rightarrow> string \<Rightarrow> string \<Rightarrow> sql_error + database" where
  "insert_payment e db sid m st =
     (if fails e Insert_Payment then Inl (Server_Error Insert_Payment)
      else if length m > 20 then Inl (Data_Too_Long ''mode'')
      else if length st > 20 then Inl (Data_Too_Long ''status'')
      else if sid \<notin> set (map sale_id (Sale db)) then Inl (Foreign_Key_Violated ''sale_id'')
      else if new_payment_id e \<in> set (map payment_id (Payment db))
        then Inl (Duplicate_Key ''Payment'')
      else Inr (db\<lparr>Payment := Payment db @
                  [\<lparr>payment_id = new_payment_id e, payment_sale_id = sid,
                    mode = m, status = st\<rparr>]\<rparr>))"

section \<open>The stored procedure make_sale\<close>

text \<open>
  The body of the procedure, from the test of the quantity to \<^verbatim>\<open>COMMIT\<close>, as the
  statements follow each other (each \<open>case\<close> continues with the next statement; a
  \<^verbatim>\<open>NULL\<close> key matches no row of Product). The result is the session as the body leaves it, and
  either the error that ended the body or the database the transaction has built with
  the row the final \<^verbatim>\<open>SELECT\<close> returns (sale_id, total_amount).
\<close>

definition make_sale_body ::
  "env \<Rightarrow> session \<Rightarrow> database \<Rightarrow> int option \<Rightarrow> int option \<Rightarrow> int option \<Rightarrow> int option
     \<Rightarrow> session \<times> (sql_error + database \<times> int \<times> int)" where
  "make_sale_body e s db p_customer_id p_product_id p_quantity p_salesperson_id =
     (case p_quantity of
        None \<Rightarrow> (s, Inl (Signal ''Quantity must be greater than 0''))
      | Some q \<Rightarrow>
     if q \<le> 0 then (s, Inl (Signal ''Quantity must be greater than 0''))
     else if fails e Select_Product then (s, Inl (Server_Error Select_Product))
     else
     (case p_product_id of
        None \<Rightarrow> (s, Inl (Signal ''Invalid product_id''))
      | Some pid \<Rightarrow>
     (case select_product db pid of
        None \<Rightarrow> (s, Inl (Signal ''Invalid product_id''))
      | Some row \<Rightarrow>
     if stock row < q then (s, Inl (Signal ''Insufficient stock''))
     else
     (case insert_sale e db p_customer_id (nullif p_salesperson_id 0) of
        Inl err \<Rightarrow> (s, Inl err)
      | Inr (db1, v_sale_id) \<Rightarrow>
     (case insert_sale_item e (s\<lparr>from_make_sale := Some 1\<rparr>) db1 v_sale_id pid q (price row) of
        Inl err \<Rightarrow> (s\<lparr>from_make_sale := Some 1\<rparr>, Inl err)
      | Inr db2 \<Rightarrow>
     (case update_product_stock e db2 pid q of
        Inl err \<Rightarrow> (s\<lparr>from_make_sale := Some 0\<rparr>, Inl err)
      | Inr db3 \<Rightarrow>
     if \<not> decimal_10_2 (price row * q)
     then (s\<lparr>from_make_sale := Some 0\<rparr>, Inl (Out_Of_Range ''v_total''))
     else
     (case update_sale_total e db3 v_sale_id (price row * q) of
        Inl err \<Rightarrow> (s\<lparr>from_make_sale := Some 0\<rparr>, Inl err)
      | Inr db4 \<Rightarrow>
     (case insert_payment e db4 v_sale_id ''CASH'' ''SUCCESS'' of
        Inl err \<Rightarrow> (s\<lparr>from_make_sale := Some 0\<rparr>, Inl err)
      | Inr db5 \<Rightarrow>
     if fails e Commit then (s\<lparr>from_make_sale := Some 0\<rparr>, Inl (Server_Error Commit))
     else (s\<lparr>from_make_sale := Some 0\<rparr>, Inr (db5, v_sale_id, price row * q))))))))))"

text \<open>
  \<^verbatim>\<open>DECLARE EXIT HANDLER FOR SQLEXCEPTION BEGIN ROLLBACK; RESIGNAL; END\<close>: an error of
  the body gives the committed database back (the call starts with no open transaction,
  as every \<^verbatim>\<open>pool.query\<close> does) and is raised again. The handler does not touch the
  user variable.
\<close>

definition make_sale ::
  "env \<Rightarrow> session \<Rightarrow> database \<Rightarrow> int option \<Rightarrow> int option \<Rightarrow> int option \<Rightarrow> int option
     \<Rightarrow> session \<times> database \<times> (sql_error + int \<times> int)" where
  "make_sale e s db p_customer_id p_product_id p_quantity p_salesperson_id =
     (case make_sale_body e s db p_customer_id p_product_id p_quantity p_salesperson_id of
        (s', Inl err) \<Rightarrow> (s', db, Inl err)
      | (s', Inr (db', out)) \<Rightarrow> (s', db', Inr out))"

section \<open>The route POST /api/sale of routes/sales.js\<close>

text \<open>
  The value of \<^verbatim>\<open>Number(x)\<close>: not a number, an infinity (\<open>True\<close> for the negative
  one), or a finite number. The route only tests such a value for being an integer and
  for its sign, and hands it to the driver; it computes nothing with it, so a finite
  number is held as the rational it denotes.
\<close>

datatype js_number = NaN | Infinity bool | Finite rat

definition isInteger :: "js_number \<Rightarrow> bool" where
  "isInteger x = (case x of Finite r \<Rightarrow> of_int (floor r) = r | _ \<Rightarrow> False)"

definition le_zero :: "js_number \<Rightarrow> bool" where
  "le_zero x = (case x of NaN \<Rightarrow> False | Infinity neg \<Rightarrow> neg | Finite r \<Rightarrow> r \<le> 0)"

text \<open>\<^verbatim>\<open>x || 0\<close> on a number: 0 when \<open>x\<close> is falsy (not a number, or zero).\<close>

definition or_zero :: "js_number \<Rightarrow> js_number" where
  "or_zero x = (case x of NaN \<Rightarrow> Finite 0 | _ \<Rightarrow> x)"

text \<open>
  The request as the first five lines of the handler leave it: the four numbers are
  the values of \<^verbatim>\<open>Number(req.body.*)\<close>, and \<open>payment_mode\<close> is the value of
  \<^verbatim>\<open>String(req.body.payment_mode || "CASH").toUpperCase().slice(0, 20)\<close>.
\<close>

record sale_request =
  req_customer_id :: js_number
  req_product_id :: js_number
  req_quantity :: js_number
  req_salesperson_id :: js_number
  payment_mode :: string

datatype response =
    Error_Response nat string "sql_error option"
  | Sale_Completed int int string

text \<open>\<^verbatim>\<open>UPDATE Payment SET mode = ? WHERE sale_id = ?\<close>\<close>

definition update_payment_mode ::
  "env \<Rightarrow> database \<Rightarrow> string \<Rightarrow> int \<Rightarrow> sql_error + database" where
  "update_payment_mode e db m sid =
     (if fails e Update_Payment then Inl (Server_Error Update_Payment)
      else if length m > 20 \<and> list_ex (\<lambda>r. payment_sale_id r = sid) (Payment db)
        then Inl (Data_Too_Long ''mode'')
      else Inr (db\<lparr>Payment :=
                  map (\<lambda>r. if payment_sale_id r = sid then r\<lparr>mode := m\<rparr> else r)
                    (Payment db)\<rparr>))"

text \<open>
  The handler. How the driver and the server turn a JavaScript number into the \<^verbatim>\<open>INT\<close>
  parameter of \<^verbatim>\<open>CALL make_sale(?,?,?,?)\<close> (rounding, the range check, the error for a
  value that is no number) is not in the repository: it is the parameter \<open>int_param\<close>.
  An error of it is an error of the query, before the procedure runs. Every error of
  a query lands in the \<^verbatim>\<open>catch\<close>. The two queries may run on different connections of
  the pool; the second one reads no user variable.
\<close>

definition post_sale ::
  "(js_number \<Rightarrow> sql_error + int) \<Rightarrow> env \<Rightarrow> session \<Rightarrow> database \<Rightarrow> sale_request
     \<Rightarrow> session \<times> database \<times> response" where
  "post_sale int_param e s db req =
     (if \<not> isInteger (req_customer_id req) \<or> le_zero (req_customer_id req)
        then (s, db, Error_Response 400 ''Invalid customer_id'' None)
      else if \<not> isInteger (req_product_id req) \<or> le_zero (req_product_id req)
        then (s, db, Error_Response 400 ''Invalid product_id'' None)
      else if \<not> isInteger (req_quantity req) \<or> le_zero (req_quantity req)
        then (s, db, Error_Response 400 ''Invalid quantity'' None)
      else
        (case int_param (req_customer_id req) of
           Inl err \<Rightarrow> (s, db, Error_Response 400 ''Sale failed'' (Some err))
         | Inr c \<Rightarrow>
        (case int_param (req_product_id req) of
           Inl err \<Rightarrow> (s, db, Error_Response 400 ''Sale failed'' (Some err))
         | Inr p \<Rightarrow>
        (case int_param (req_quantity req) of
           Inl err \<Rightarrow> (s, db, Error_Response 400 ''Sale failed'' (Some err))
         | Inr q \<Rightarrow>
        (case int_param (or_zero (req_salesperson_id req)) of
           Inl err \<Rightarrow> (s, db, Error_Response 400 ''Sale failed'' (Some err))
         | Inr sp \<Rightarrow>
        (case make_sale e s db (Some c) (Some p) (Some q) (Some sp) of
           (s', db', Inl err) \<Rightarrow> (s', db', Error_Response 400 ''Sale failed'' (Some err))
         | (s', db', Inr (out_sale_id, out_total_amount)) \<Rightarrow>
             if out_sale_id = 0
             then (s', db', Error_Response 500
                     ''Sale created but no output returned from procedure'' None)
             else
               (case update_payment_mode e db' (payment_mode req) out_sale_id of
                  Inl err \<Rightarrow> (s', db', Error_Response 400 ''Sale failed'' (Some err))
                | Inr db'' \<Rightarrow>
                    (s', db'',
                     Sale_Completed out_sale_id out_total_amount (payment_mode req)))))))))"

section \<open>Everything that writes the tables of a sale\<close>

text \<open>
  The server with its connections: the database, and the user variable of each
  connection. An event is one call or one statement in autocommit mode, on a connection
  and under the conditions it meets:
  \<^item> a call of make_sale;
  \<^item> a request to POST /api/sale (the procedure on the given connection, then the
    update of the payment mode);
  \<^item> an \<^verbatim>\<open>INSERT INTO Sale_Item\<close> by a writer that bypasses make_sale (the trigger is
    there for it);
  \<^item> the update of a payment mode alone;
  \<^item> a write to the table Product by the management of the catalog, which is outside
    the repository: whatever it does to the rows of that table (a change of a price is
    one such write).
  These are all the writers of Product, Sale, Sale_Item and Payment in the repository,
  and every writer of the catalog. Calls of several connections follow each other in
  the order in which the server serialises them: make_sale holds the row lock of its
  \<^verbatim>\<open>SELECT ... FOR UPDATE\<close> until its transaction ends, and a statement in autocommit
  mode is a transaction of its own.
\<close>

record server =
  tables :: database
  connection :: "nat \<Rightarrow> session"

datatype event =
    Call_make_sale nat env "int option" "int option" "int option" "int option"
  | Post_sale nat "js_number \<Rightarrow> sql_error + int" env sale_request
  | Insert_bypassing nat env int int int int
  | Set_payment_mode env string int
  | Catalog_write "product list \<Rightarrow> product list"

fun step :: "server \<Rightarrow> event \<Rightarrow> server" where
  "step sv (Call_make_sale c e p_customer_id p_product_id p_quantity p_salesperson_id) =
     (case make_sale e (connection sv c) (tables sv)
             p_customer_id p_product_id p_quantity p_salesperson_id of
        (s', db', _) \<Rightarrow> sv\<lparr>tables := db', connection := (connection sv)(c := s')\<rparr>)"
| "step sv (Post_sale c int_param e req) =
     (case post_sale int_param e (connection sv c) (tables sv) req of
        (s', db', _) \<Rightarrow> sv\<lparr>tables := db', connection := (connection sv)(c := s')\<rparr>)"
| "step sv (Insert_bypassing c e sid pid q pr) =
     (case insert_sale_item e (connection sv c) (tables sv) sid pid q pr of
        Inl err \<Rightarrow> sv
      | Inr db' \<Rightarrow> sv\<lparr>tables := db'\<rparr>)"
| "step sv (Set_payment_mode e m sid) =
     (case update_payment_mode e (tables sv) m sid of
        Inl err \<Rightarrow> sv
      | Inr db' \<Rightarrow> sv\<lparr>tables := db'\<rparr>)"
| "step sv (Catalog_write f) = sv\<lparr>tables := (tables sv)\<lparr>Product := f (Product (tables sv))\<rparr>\<rparr>"

definition run :: "server \<Rightarrow> event list \<Rightarrow> server" where
  "run sv evs = foldl step sv evs"

section \<open>Concurrent calls, statement by statement\<close>

text \<open>
  The rows a transaction holds until it ends: the row of Product it has read with
  \<^verbatim>\<open>FOR UPDATE\<close>, and the row of Sale it has inserted and not yet committed.
\<close>

datatype locked_row = Product_row int | Sale_row int

text \<open>
  How far a running call of make_sale has come, with what it has written: the key of
  its row of Sale (the variable \<open>v_sale_id\<close>), of its row of Sale_Item, of its row of
  Payment. \<open>Selected\<close> is the state after the \<^verbatim>\<open>SELECT ... FOR UPDATE\<close> and the two
  tests that follow it.
\<close>

datatype progress =
    Selected
  | Sale_inserted int
  | Item_inserted int int
  | Stock_updated int int
  | Total_updated int int
  | Payment_inserted int int int

text \<open>A running call: its parameters, its variables, its progress.\<close>

record call =
  arg_customer :: "int option"
  arg_product :: int
  arg_quantity :: int
  arg_salesperson :: "int option"
  var_price :: int
  var_stock :: int
  progress :: progress

text \<open>
  The server as concurrent connections see it. \<open>store\<close> holds the rows as the storage
  engine has them, the uncommitted changes of running transactions included;
  what a transaction has written is taken out again when it rolls back.
\<close>

record shared =
  store :: database
  user_variable :: "nat \<Rightarrow> session"
  connections :: "nat list"
  locks :: "locked_row \<Rightarrow> nat option"
  running :: "nat \<Rightarrow> call option"

text \<open>
  What a connection gets from the server for a step: it has to wait (for a lock, or
  because the connection is busy or does not exist), an error is raised, the call goes
  on, or the call returns the row (sale_id, total_amount).
\<close>

datatype reply = Waiting | Raised sql_error | Proceeding | Returned int int

text \<open>
  \<^verbatim>\<open>ROLLBACK\<close> of a running call: the rows it has inserted are removed and the stock it
  has taken is given back, statement by statement in reverse.
\<close>

definition delete_sale :: "int \<Rightarrow> database \<Rightarrow> database" where
  "delete_sale sid db = db\<lparr>Sale := filter (\<lambda>r. sale_id r \<noteq> sid) (Sale db)\<rparr>"

definition delete_sale_item :: "int \<Rightarrow> database \<Rightarrow> database" where
  "delete_sale_item iid db = db\<lparr>Sale_Item := filter (\<lambda>r. sale_item_id r \<noteq> iid) (Sale_Item db)\<rparr>"

definition delete_payment :: "int \<Rightarrow> database \<Rightarrow> database" where
  "delete_payment pay db = db\<lparr>Payment := filter (\<lambda>r. payment_id r \<noteq> pay) (Payment db)\<rparr>"

definition restore_stock :: "int \<Rightarrow> int \<Rightarrow> database \<Rightarrow> database" where
  "restore_stock pid q db =
     db\<lparr>Product := map (\<lambda>r. if product_id r = pid then r\<lparr>stock := stock r + q\<rparr> else r)
                      (Product db)\<rparr>"

fun undo :: "progress \<Rightarrow> int \<Rightarrow> int \<Rightarrow> database \<Rightarrow> database" where
  "undo Selected pid q db = db"
| "undo (Sale_inserted sid) pid q db = delete_sale sid db"
| "undo (Item_inserted sid iid) pid q db = delete_sale sid (delete_sale_item iid db)"
| "undo (Stock_updated sid iid) pid q db =
     delete_sale sid (delete_sale_item iid (restore_stock pid q db))"
| "undo (Total_updated sid iid) pid q db =
     delete_sale sid (delete_sale_item iid (restore_stock pid q db))"
| "undo (Payment_inserted sid iid pay) pid q db =
     delete_sale sid (delete_sale_item iid (restore_stock pid q (delete_payment pay db)))"

definition rollback :: "call \<Rightarrow> database \<Rightarrow> database" where
  "rollback k db = undo (progress k) (arg_product k) (arg_quantity k) db"

text \<open>The end of a transaction releases every lock it holds.\<close>

definition release :: "nat \<Rightarrow> (locked_row \<Rightarrow> nat option) \<Rightarrow> locked_row \<Rightarrow> nat option" where
  "release c l = (\<lambda>x. if l x = Some c then None else l x)"

text \<open>
  \<^verbatim>\<open>DECLARE EXIT HANDLER FOR SQLEXCEPTION BEGIN ROLLBACK; RESIGNAL; END\<close> for a running
  call.
\<close>

definition exit_handler :: "nat \<Rightarrow> call \<Rightarrow> sql_error \<Rightarrow> shared \<Rightarrow> shared \<times> reply" where
  "exit_handler c k err cs =
     (cs\<lparr>store := rollback k (store cs), locks := release c (locks cs),
         running := (running cs)(c := None)\<rparr>,
      Raised err)"

definition proceed :: "nat \<Rightarrow> call \<Rightarrow> progress \<Rightarrow> database \<Rightarrow> shared \<Rightarrow> shared \<times> reply" where
  "proceed c k pr db cs =
     (cs\<lparr>store := db, running := (running cs)(c \<mapsto> k\<lparr>progress := pr\<rparr>)\<rparr>, Proceeding)"

text \<open>
  The first step of a call: the test of the quantity, \<^verbatim>\<open>START TRANSACTION\<close>, the
  \<^verbatim>\<open>SELECT ... FOR UPDATE\<close>, which waits while another transaction holds the row, and
  the tests of the row. An error here ends the call with nothing written and no lock
  kept.
\<close>

definition begin_make_sale ::
  "env \<Rightarrow> nat \<Rightarrow> int option \<Rightarrow> int option \<Rightarrow> int option \<Rightarrow> int option \<Rightarrow> shared
     \<Rightarrow> shared \<times> reply" where
  "begin_make_sale e c p_customer_id p_product_id p_quantity p_salesperson_id cs =
     (if c \<notin> set (connections cs) \<or> running cs c \<noteq> None then (cs, Waiting)
      else
     (case p_quantity of
        None \<Rightarrow> (cs, Raised (Signal ''Quantity must be greater than 0''))
      | Some q \<Rightarrow>
     if q \<le> 0 then (cs, Raised (Signal ''Quantity must be greater than 0''))
     else if fails e Select_Product then (cs, Raised (Server_Error Select_Product))
     else
     (case p_product_id of
        None \<Rightarrow> (cs, Raised (Signal ''Invalid product_id''))
      | Some pid \<Rightarrow>
     if locks cs (Product_row pid) \<noteq> None then (cs, Waiting)
     else
     (case select_product (store cs) pid of
        None \<Rightarrow> (cs, Raised (Signal ''Invalid product_id''))
      | Some row \<Rightarrow>
     if stock row < q then (cs, Raised (Signal ''Insufficient stock''))
     else
       (cs\<lparr>locks := (locks cs)(Product_row pid \<mapsto> c),
           running := (running cs)(c \<mapsto>
             \<lparr>arg_customer = p_customer_id, arg_product = pid, arg_quantity = q,
              arg_salesperson = p_salesperson_id, var_price = price row,
              var_stock = stock row, progress = Selected\<rparr>)\<rparr>,
        Proceeding)))))"

text \<open>
  The next statement of the call that runs on connection \<open>c\<close>, on the rows as they are
  now. The statements are those of \<open>make_sale_body\<close>, in its order; the two
  assignments to \<^verbatim>\<open>@from_make_sale\<close> go with the \<^verbatim>\<open>INSERT\<close> between them, and the
  computation of \<open>v_total\<close> goes with the \<^verbatim>\<open>UPDATE Sale\<close> that follows it (no other
  connection can see or change the variables of this one).
\<close>

definition next_statement :: "env \<Rightarrow> nat \<Rightarrow> shared \<Rightarrow> shared \<times> reply" where
  "next_statement e c cs =
     (case running cs c of
        None \<Rightarrow> (cs, Waiting)
      | Some k \<Rightarrow>
     (case progress k of
        Selected \<Rightarrow>
          (case insert_sale e (store cs) (arg_customer k) (nullif (arg_salesperson k) 0) of
             Inl err \<Rightarrow> exit_handler c k err cs
           | Inr (db1, v_sale_id) \<Rightarrow>
               proceed c k (Sale_inserted v_sale_id) db1
                 (cs\<lparr>locks := (locks cs)(Sale_row v_sale_id \<mapsto> c)\<rparr>))
      | Sale_inserted v_sale_id \<Rightarrow>
          (case insert_sale_item e ((user_variable cs c)\<lparr>from_make_sale := Some 1\<rparr>) (store cs)
                  v_sale_id (arg_product k) (arg_quantity k) (var_price k) of
             Inl err \<Rightarrow>
               exit_handler c k err
                 (cs\<lparr>user_variable := (user_variable cs)
                       (c := (user_variable cs c)\<lparr>from_make_sale := Some 1\<rparr>)\<rparr>)
           | Inr db2 \<Rightarrow>
               proceed c k (Item_inserted v_sale_id (new_sale_item_id e)) db2
                 (cs\<lparr>user_variable := (user_variable cs)
                       (c := (user_variable cs c)\<lparr>from_make_sale := Some 0\<rparr>)\<rparr>))
      | Item_inserted v_sale_id item \<Rightarrow>
          (case update_product_stock e (store cs) (arg_product k) (arg_quantity k) of
             Inl err \<Rightarrow> exit_handler c k err cs
           | Inr db3 \<Rightarrow> proceed c k (Stock_updated v_sale_id item) db3 cs)
      | Stock_updated v_sale_id item \<Rightarrow>
          if \<not> decimal_10_2 (var_price k * arg_quantity k)
          then exit_handler c k (Out_Of_Range ''v_total'') cs
          else
            (case update_sale_total e (store cs) v_sale_id (var_price k * arg_quantity k) of
               Inl err \<Rightarrow> exit_handler c k err cs
             | Inr db4 \<Rightarrow> proceed c k (Total_updated v_sale_id item) db4 cs)
      | Total_updated v_sale_id item \<Rightarrow>
          (case insert_payment e (store cs) v_sale_id ''CASH'' ''SUCCESS'' of
             Inl err \<Rightarrow> exit_handler c k err cs
           | Inr db5 \<Rightarrow>
               proceed c k (Payment_inserted v_sale_id item (new_payment_id e)) db5 cs)
      | Payment_inserted v_sale_id item pay \<Rightarrow>
          if fails e Commit then exit_handler c k (Server_Error Commit) cs
          else
            (cs\<lparr>locks := release c (locks cs), running := (running cs)(c := None)\<rparr>,
             Returned v_sale_id (var_price k * arg_quantity k))))"

text \<open>
  An \<^verbatim>\<open>INSERT INTO Sale_Item\<close> in autocommit mode on an idle connection, by a writer that
  bypasses make_sale. Its foreign key checks and the \<^verbatim>\<open>UPDATE\<close> of its trigger wait
  while a running transaction holds the row of Product or of Sale.
\<close>

definition bypassing_insert ::
  "env \<Rightarrow> nat \<Rightarrow> int \<Rightarrow> int \<Rightarrow> int \<Rightarrow> int \<Rightarrow> shared \<Rightarrow> shared \<times> reply" where
  "bypassing_insert e c sid pid q pr cs =
     (if c \<notin> set (connections cs) \<or> running cs c \<noteq> None then (cs, Waiting)
      else if locks cs (Product_row pid) \<noteq> None \<or> locks cs (Sale_row sid) \<noteq> None
        then (cs, Waiting)
      else
        (case insert_sale_item e (user_variable cs c) (store cs) sid pid q pr of
           Inl err \<Rightarrow> (cs, Raised err)
         | Inr db' \<Rightarrow> (cs\<lparr>store := db'\<rparr>, Proceeding)))"

text \<open>
  An interleaving is a list of steps of any connections in any order: calls begin,
  running calls carry out their next statement, bypassing writers insert.
\<close>

datatype action =
    Begin nat env "int option" "int option" "int option" "int option"
  | Next nat env
  | Bypass nat env int int int int

fun act :: "shared \<Rightarrow> action \<Rightarrow> shared" where
  "act cs (Begin c e p_customer_id p_product_id p_quantity p_salesperson_id) =
     fst (begin_make_sale e c p_customer_id p_product_id p_quantity p_salesperson_id cs)"
| "act cs (Next c e) = fst (next_statement e c cs)"
| "act cs (Bypass c e sid pid q pr) = fst (bypassing_insert e c sid pid q pr cs)"

definition interleave :: "shared \<Rightarrow> action list \<Rightarrow> shared" where
  "interleave cs acts = foldl act cs acts"

text \<open>
  What other connections can read (read committed or better): the rows without the
  changes of the transactions that are still running.
\<close>

definition committed :: "shared \<Rightarrow> database" where
  "committed cs =
     foldr (\<lambda>c db. case running cs c of None \<Rightarrow> db | Some k \<Rightarrow> rollback k db)
       (remdups (connections cs)) (store cs)"

text \<open>
  What the transaction that runs on connection \<open>c\<close>, if there is one, has written and
  not committed, taken out of the rows \<open>db\<close>.
\<close>

definition pending :: "shared \<Rightarrow> nat \<Rightarrow> database \<Rightarrow> database" where
  "pending cs c db = (case running cs c of None \<Rightarrow> db | Some k \<Rightarrow> rollback k db)"

section \<open>Invariants and the scenarios of the spec\<close>

text \<open>
  The key of Product is unique (\<^verbatim>\<open>PRIMARY KEY\<close>) and no stock is negative.
\<close>

definition products_ok :: "database \<Rightarrow> bool" where
  "products_ok db =
     (distinct (map product_id (Product db)) \<and> list_all (\<lambda>r. 0 \<le> stock r) (Product db))"

text \<open>
  Every sale has exactly one payment, and every payment belongs to a sale (the foreign
  key of Payment).
\<close>

definition payments_ok :: "database \<Rightarrow> bool" where
  "payments_ok db =
     (list_all (\<lambda>r. length (filter (\<lambda>p. payment_sale_id p = sale_id r) (Payment db)) = 1)
        (Sale db) \<and>
      list_all (\<lambda>p. payment_sale_id p \<in> set (map sale_id (Sale db))) (Payment db))"

text \<open>
  The data of the scenarios of the spec: item 1 with price 129.99 and stock 30, item 2
  with stock 5, customers 1 and 2, no sale yet; a server on which nothing fails and
  which hands out key 1 in each of the empty tables; a fresh connection.
\<close>

definition scenario_db :: database where
  "scenario_db =
     \<lparr>Customer = [1, 2], Salesperson = [],
      Product =
        [\<lparr>product_id = 1, name = ''Item one'', category = ''Phone'', price = 12999,
           stock = 30, description = None\<rparr>,
         \<lparr>product_id = 2, name = ''Item two'', category = ''Audio'', price = 149900,
           stock = 5, description = None\<rparr>],
      Sale = [], Sale_Item = [], Payment = []\<rparr>"

definition scenario_env :: env where
  "scenario_env =
     \<lparr>fails = (\<lambda>_. False), check_constraints = True, now = 0,
      new_sale_id = 1, new_sale_item_id = 1, new_payment_id = 1\<rparr>"

definition fresh_session :: session where
  "fresh_session = \<lparr>from_make_sale = None\<rparr>"

text \<open>The database of the scenario after customer 1 has bought 2 of item 1.\<close>

definition scenario_sold :: database where
  "scenario_sold =
     \<lparr>Customer = [1, 2], Salesperson = [],
      Product =
        [\<lparr>product_id = 1, name = ''Item one'', category = ''Phone'', price = 12999,
           stock = 28, description = None\<rparr>,
         \<lparr>product_id = 2, name = ''Item two'', category = ''Audio'', price = 149900,
           stock = 5, description = None\<rparr>],
      Sale = [\<lparr>sale_id = 1, customer_id = 1, salesperson_id = None, sale_date = 0,
               total_amount = 25998\<rparr>],
      Sale_Item = [\<lparr>sale_item_id = 1, item_sale_id = 1, item_product_id = 1, quantity = 2,
                    item_price = 12999\<rparr>],
      Payment = [\<lparr>payment_id = 1, payment_sale_id = 1, mode = ''CASH'',
                  status = ''SUCCESS''\<rparr>]\<rparr>"

text \<open>What identifies a payment and can never change: its key, its sale, its status.\<close>

definition payment_keys :: "database \<Rightarrow> (int \<times> int \<times> string) list" where
  "payment_keys db = map (\<lambda>p. (payment_id p, payment_sale_id p, status p)) (Payment db)"

text \<open>
  A call that no other connection interrupts: its first step, then its statements one
  after the other until it returns or raises (six statements are left after the first
  step).
\<close>

fun finish :: "nat \<Rightarrow> env \<Rightarrow> nat \<Rightarrow> shared \<Rightarrow> shared \<times> reply" where
  "finish 0 e c cs = (cs, Proceeding)"
| "finish (Suc n) e c cs =
     (case next_statement e c cs of
        (cs', Proceeding) \<Rightarrow> finish n e c cs'
      | (cs', r) \<Rightarrow> (cs', r))"

definition call_alone ::
  "env \<Rightarrow> nat \<Rightarrow> int option \<Rightarrow> int option \<Rightarrow> int option \<Rightarrow> int option \<Rightarrow> shared
     \<Rightarrow> shared \<times> reply" where
  "call_alone e c p_customer_id p_product_id p_quantity p_salesperson_id cs =
     (case begin_make_sale e c p_customer_id p_product_id p_quantity p_salesperson_id cs of
        (cs', Proceeding) \<Rightarrow> finish 6 e c cs'
      | (cs', r) \<Rightarrow> (cs', r))"

definition reply_of :: "sql_error + int \<times> int \<Rightarrow> reply" where
  "reply_of r = (case r of Inl err \<Rightarrow> Raised err | Inr (sid, tot) \<Rightarrow> Returned sid tot)"


text \<open>
  A stage of a call that runs alone on connection \<open>c\<close> of the server \<open>cs\<close>, on which
  nothing was running: only the variable of \<open>c\<close>, the running call, the locks of \<open>c\<close>
  and the rows differ, and a rollback of the call gives the rows of \<open>cs\<close> back.
\<close>

definition stage :: "nat \<Rightarrow> shared \<Rightarrow> shared \<Rightarrow> call \<Rightarrow> session \<Rightarrow> bool" where
  "stage c cs cs' k s' =
     (connections cs' = connections cs \<and>
      user_variable cs' = (user_variable cs)(c := s') \<and>
      running cs' = (running cs)(c \<mapsto> k) \<and>
      locks cs = (\<lambda>_. None) \<and> (\<forall>x. locks cs' x = None \<or> locks cs' x = Some c) \<and>
      rollback k (store cs') = store cs)"

text \<open>
  What holds of every running call: it holds the lock of its item, its quantity is
  positive, and until it has taken the stock, the stock of its item is enough.
\<close>

fun stock_taken :: "progress \<Rightarrow> bool" where
  "stock_taken Selected = False"
| "stock_taken (Sale_inserted _) = False"
| "stock_taken (Item_inserted _ _) = False"
| "stock_taken _ = True"

definition enough_stock :: "database \<Rightarrow> int \<Rightarrow> int \<Rightarrow> bool" where
  "enough_stock db pid q =
     (case select_product db pid of None \<Rightarrow> False | Some row \<Rightarrow> q \<le> stock row)"

definition call_ok :: "shared \<Rightarrow> nat \<Rightarrow> call \<Rightarrow> bool" where
  "call_ok cs c k =
     (locks cs (Product_row (arg_product k)) = Some c \<and> 0 < arg_quantity k \<and>
      (\<not> stock_taken (progress k) \<longrightarrow>
         enough_stock (store cs) (arg_product k) (arg_quantity k)))"

definition calls_ok :: "shared \<Rightarrow> bool" where
  "calls_ok cs = (products_ok (store cs) \<and> (\<forall>c k. running cs c = Some k \<longrightarrow> call_ok cs c k))"

text \<open>
  Scenario 4 of the spec on item 2 (stock 5): connection 0 and connection 1 both ask for
  5. Connection 1 waits as long as connection 0 holds the row, and finds no stock left
  when connection 0 has committed.
\<close>

definition scenario_server :: shared where
  "scenario_server =
     \<lparr>store = scenario_db, user_variable = (\<lambda>_. fresh_session), connections = [0, 1],
      locks = (\<lambda>_. None), running = (\<lambda>_. None)\<rparr>"

definition scenario_race :: "action list" where
  "scenario_race =
     [Begin 0 scenario_env (Some 1) (Some 2) (Some 5) (Some 0),
      Begin 1 scenario_env (Some 2) (Some 2) (Some 5) (Some 0),
      Next 0 scenario_env, Next 0 scenario_env, Next 0 scenario_env,
      Begin 1 scenario_env (Some 2) (Some 2) (Some 5) (Some 0),
      Next 0 scenario_env, Next 0 scenario_env, Next 0 scenario_env,
      Begin 1 scenario_env (Some 2) (Some 2) (Some 5) (Some 0)]"

text \<open>
  A forced failure: a server on which the \<^verbatim>\<open>INSERT INTO Payment\<close> fails, and the server
  of the scenario when a call of customer 1 for 2 of item 1 on connection 0 has carried
  out every statement before that one.
\<close>

definition scenario_failing :: env where
  "scenario_failing = scenario_env\<lparr>fails := (\<lambda>x. x = Insert_Payment)\<rparr>"

definition scenario_half_done :: shared where
  "scenario_half_done =
     interleave scenario_server
       [Begin 0 scenario_failing (Some 1) (Some 1) (Some 2) (Some 0),
        Next 0 scenario_failing, Next 0 scenario_failing, Next 0 scenario_failing,
        Next 0 scenario_failing]"

section \<open>What each statement does when it succeeds\<close>

lemmas stmt_defs = make_sale_def make_sale_body_def select_product_def insert_sale_def
  insert_sale_item_def trg_sale_item_after_insert_def update_product_stock_def
  update_sale_total_def insert_payment_def update_payment_mode_def
  nullif_def ifnull_def int_range_def decimal_10_2_def

lemmas scenario_defs = scenario_db_def scenario_env_def fresh_session_def

lemma make_sale_error_keeps_db: "make_sale e s db c p q sp = (s', db', Inl err) \<Longrightarrow> db' = db"
  by (auto simp: make_sale_def split: prod.splits sum.splits)

lemma insert_sale_Inr:
  "insert_sale e db c sp = Inr (db1, sid) \<Longrightarrow>
     \<exists>cv. c = Some cv \<and> sid = new_sale_id e \<and> sid \<notin> set (map sale_id (Sale db)) \<and>
       db1 = db\<lparr>Sale := Sale db @ [\<lparr>sale_id = sid, customer_id = cv, salesperson_id = sp, sale_date = now e, total_amount = 0\<rparr>]\<rparr>"
  by (auto simp: insert_sale_def split: if_splits option.splits)

lemma trg_skipped:
  "ifnull (from_make_sale s) 0 \<noteq> 0 \<Longrightarrow> trg_sale_item_after_insert e s db new = Inr db"
  by (simp add: trg_sale_item_after_insert_def)

lemma insert_sale_item_marked:
  "ifnull (from_make_sale s) 0 \<noteq> 0 \<Longrightarrow> insert_sale_item e s db sid pid q pr = Inr db2 \<Longrightarrow>
     new_sale_item_id e \<notin> set (map sale_item_id (Sale_Item db)) \<and>
     db2 = db\<lparr>Sale_Item := Sale_Item db @ [\<lparr>sale_item_id = new_sale_item_id e, item_sale_id = sid, item_product_id = pid, quantity = q, item_price = pr\<rparr>]\<rparr>"
  by (auto simp: insert_sale_item_def trg_skipped Let_def split: if_splits)

lemma update_product_stock_Inr:
  "update_product_stock e db pid q = Inr db3 \<Longrightarrow>
     db3 = db\<lparr>Product := map (\<lambda>r. if product_id r = pid then r\<lparr>stock := stock r - q\<rparr> else r) (Product db)\<rparr>"
  by (auto simp: update_product_stock_def split: if_splits)

lemma update_sale_total_Inr:
  "update_sale_total e db sid t = Inr db4 \<Longrightarrow>
     db4 = db\<lparr>Sale := map (\<lambda>r. if sale_id r = sid then r\<lparr>total_amount := t\<rparr> else r) (Sale db)\<rparr>"
  by (auto simp: update_sale_total_def split: if_splits)

lemma insert_payment_Inr:
  "insert_payment e db sid m st = Inr db5 \<Longrightarrow>
     new_payment_id e \<notin> set (map payment_id (Payment db)) \<and>
     db5 = db\<lparr>Payment := Payment db @ [\<lparr>payment_id = new_payment_id e, payment_sale_id = sid, mode = m, status = st\<rparr>]\<rparr>"
  by (auto simp: insert_payment_def split: if_splits)

lemma update_fresh_sale: "sid \<notin> set (map sale_id xs) \<Longrightarrow> map (\<lambda>r. if sale_id r = sid then f r else r) xs = xs"
  by (induction xs) auto

lemma make_sale_success:
  assumes "make_sale e s db c p q sp = (s', db', Inr (sid, tot))"
  shows "\<exists>cv pid qq row. c = Some cv \<and> p = Some pid \<and> q = Some qq \<and> 0 < qq \<and>
      select_product db pid = Some row \<and> qq \<le> stock row \<and> tot = price row * qq \<and> decimal_10_2 tot \<and>
      sid = new_sale_id e \<and> sid \<notin> set (map sale_id (Sale db)) \<and>
      new_sale_item_id e \<notin> set (map sale_item_id (Sale_Item db)) \<and>
      new_payment_id e \<notin> set (map payment_id (Payment db)) \<and>
      s' = s\<lparr>from_make_sale := Some 0\<rparr> \<and>
      db' = db\<lparr>Sale := Sale db @ [\<lparr>sale_id = sid, customer_id = cv, salesperson_id = nullif sp 0, sale_date = now e, total_amount = tot\<rparr>],
               Sale_Item := Sale_Item db @ [\<lparr>sale_item_id = new_sale_item_id e, item_sale_id = sid, item_product_id = pid, quantity = qq, item_price = price row\<rparr>],
               Product := map (\<lambda>r. if product_id r = pid then r\<lparr>stock := stock r - qq\<rparr> else r) (Product db),
               Payment := Payment db @ [\<lparr>payment_id = new_payment_id e, payment_sale_id = sid, mode = ''CASH'', status = ''SUCCESS''\<rparr>]\<rparr>"
  using assms
  apply (simp add: make_sale_def make_sale_body_def split: prod.splits sum.splits option.splits if_splits)
  apply (auto dest!: insert_sale_Inr insert_sale_item_marked[rotated] update_product_stock_Inr update_sale_total_Inr insert_payment_Inr simp: update_fresh_sale ifnull_def)
  done

lemma post_sale_tables:
  assumes "post_sale ip e s db req = (s', db', r)"
  shows "db' = db \<or> (\<exists>c p q sp s1 db1 out. make_sale e s db c p q sp = (s1, db1, Inr out) \<and>
            (db' = db1 \<or> (\<exists>m sid. update_payment_mode e db1 m sid = Inr db')))"
  using assms
  apply (simp add: post_sale_def split: if_splits sum.splits prod.splits)
      apply (blast dest: make_sale_error_keeps_db)+
  done

lemma step_preserves:
  assumes ms: "\<And>e s db c p q sp s' db' out. P db \<Longrightarrow> make_sale e s db c p q sp = (s', db', Inr out) \<Longrightarrow> P db'"
    and isi: "\<And>e s db sid pid q pr db'. P db \<Longrightarrow> insert_sale_item e s db sid pid q pr = Inr db' \<Longrightarrow> P db'"
    and upm: "\<And>e db m sid db'. P db \<Longrightarrow> update_payment_mode e db m sid = Inr db' \<Longrightarrow> P db'"
    and cw: "\<And>db ps. P db \<Longrightarrow> P (db\<lparr>Product := ps\<rparr>)"
    and P: "P (tables sv)"
  shows "P (tables (step sv ev))"
proof (cases ev)
  case (Call_make_sale c e cu p q sp)
  obtain s' db' r where r: "make_sale e (connection sv c) (tables sv) cu p q sp = (s', db', r)"
    by (metis prod_cases3)
  show ?thesis
  proof (cases r)
    case (Inl err)
    with r have "db' = tables sv" by (auto dest: make_sale_error_keeps_db)
    with P r Call_make_sale show ?thesis by simp
  next
    case (Inr out)
    with r P have "P db'" by (auto dest: ms)
    with r Call_make_sale show ?thesis by simp
  qed
next
  case (Post_sale c ip e req)
  obtain s' db' r where r: "post_sale ip e (connection sv c) (tables sv) req = (s', db', r)"
    by (metis prod_cases3)
  from post_sale_tables[OF r] P have "P db'"
    by (auto dest: ms upm)
  with r Post_sale show ?thesis by simp
next
  case (Insert_bypassing c e sid pid q pr)
  with P show ?thesis by (auto split: sum.splits dest: isi)
next
  case (Set_payment_mode e m sid)
  with P show ?thesis by (auto split: sum.splits dest: upm)
next
  case (Catalog_write f)
  with P show ?thesis by (simp add: cw)
qed

lemma run_preserves:
  assumes ms: "\<And>e s db c p q sp s' db' out. P db \<Longrightarrow> make_sale e s db c p q sp = (s', db', Inr out) \<Longrightarrow> P db'"
    and isi: "\<And>e s db sid pid q pr db'. P db \<Longrightarrow> insert_sale_item e s db sid pid q pr = Inr db' \<Longrightarrow> P db'"
    and upm: "\<And>e db m sid db'. P db \<Longrightarrow> update_payment_mode e db m sid = Inr db' \<Longrightarrow> P db'"
    and cw: "\<And>db ps. P db \<Longrightarrow> P (db\<lparr>Product := ps\<rparr>)"
  shows "P (tables sv) \<Longrightarrow> P (tables (run sv evs))"
  unfolding run_def
proof (induction evs arbitrary: sv)
  case Nil then show ?case by simp
next
  case (Cons ev evs)
  have "P (tables (step sv ev))" by (rule step_preserves[of P, OF ms isi upm cw Cons.prems])
  from Cons.IH[OF this] show ?case by simp
qed

lemma find_update_stock:
  "find (\<lambda>r. product_id r = i) (map (\<lambda>r. if product_id r = pid then r\<lparr>stock := f r\<rparr> else r) xs) =
   map_option (\<lambda>r. if product_id r = pid then r\<lparr>stock := f r\<rparr> else r) (find (\<lambda>r. product_id r = i) xs)"
  by (induction xs) auto

lemma find_key: "find (\<lambda>r. product_id r = i) xs = Some row \<Longrightarrow> product_id row = i \<and> row \<in> set xs"
  by (induction xs) (auto split: if_splits)

lemma ids_update_stock:
  "map product_id (map (\<lambda>r. if product_id r = pid then r\<lparr>stock := f r\<rparr> else r) xs) = map product_id xs"
  by (induction xs) auto

lemma distinct_key_unique:
  "distinct (map product_id xs) \<Longrightarrow> find (\<lambda>r. product_id r = pid) xs = Some row \<Longrightarrow>
     r \<in> set xs \<Longrightarrow> product_id r = pid \<Longrightarrow> r = row"
proof (induction xs)
  case Nil
  then show ?case by simp
next
  case (Cons a xs)
  show ?case
  proof (cases "product_id a = pid")
    case True
    with Cons.prems(2) have "row = a" by simp
    moreover have "r = a"
    proof (rule ccontr)
      assume "r \<noteq> a"
      with Cons.prems(3) have "r \<in> set xs" by simp
      then have "product_id r \<in> product_id ` set xs" by (rule imageI)
      with Cons.prems(1,4) True show False by simp
    qed
    ultimately show ?thesis by simp
  next
    case False
    with Cons.prems have "find (\<lambda>r. product_id r = pid) xs = Some row" "r \<in> set xs"
      "distinct (map product_id xs)" by auto
    with Cons.IH Cons.prems(4) show ?thesis by simp
  qed
qed

lemma trg_fires:
  assumes un: "ifnull (from_make_sale s) 0 = 0"
    and nf: "\<not> fails e Update_Product"
    and d: "distinct (map product_id (Product db))"
    and row: "select_product db (item_product_id new) = Some row"
    and rg: "int_range (stock row - quantity new)"
  shows "trg_sale_item_after_insert e s db new =
     (if stock row - quantity new < 0
      then Inl (if check_constraints e then Check_Violated ''Product''
                else Signal ''Stock cannot be negative'')
      else Inr (db\<lparr>Product :=
                  map (\<lambda>r. if product_id r = item_product_id new
                            then r\<lparr>stock := stock r - quantity new\<rparr> else r)
                    (Product db)\<rparr>))"
proof -
  let ?pid = "item_product_id new" and ?q = "quantity new"
  from row have f: "find (\<lambda>r. product_id r = ?pid) (Product db) = Some row"
    by (simp add: select_product_def)
  have only: "r = row" if "r \<in> set (Product db)" "product_id r = ?pid" for r
    using distinct_key_unique[OF d f that] .
  from f have mem: "row \<in> set (Product db)" and key: "product_id row = ?pid"
    by (auto dest: find_key)
  have ex1: "\<not> list_ex (\<lambda>r. product_id r = ?pid \<and> \<not> int_range (stock r - ?q)) (Product db)"
  proof
    assume "list_ex (\<lambda>r. product_id r = ?pid \<and> \<not> int_range (stock r - ?q)) (Product db)"
    then obtain r where r: "r \<in> set (Product db)" "product_id r = ?pid"
      "\<not> int_range (stock r - ?q)"
      unfolding list_ex_iff by fast
    from only[OF r(1,2)] r(3) rg show False by simp
  qed
  have ex2: "list_ex (\<lambda>r. product_id r = ?pid \<and> stock r - ?q < 0) (Product db)
               = (stock row - ?q < 0)"
  proof
    assume "list_ex (\<lambda>r. product_id r = ?pid \<and> stock r - ?q < 0) (Product db)"
    then obtain r where r: "r \<in> set (Product db)" "product_id r = ?pid" "stock r - ?q < 0"
      unfolding list_ex_iff by fast
    from only[OF r(1,2)] r(3) show "stock row - ?q < 0" by simp
  next
    assume "stock row - ?q < 0"
    with mem key show "list_ex (\<lambda>r. product_id r = ?pid \<and> stock r - ?q < 0) (Product db)"
      unfolding list_ex_iff by fast
  qed
  have after: "find (\<lambda>r. product_id r = ?pid)
       (map (\<lambda>r. if product_id r = ?pid then r\<lparr>stock := stock r - ?q\<rparr> else r) (Product db))
      = Some (row\<lparr>stock := stock row - ?q\<rparr>)"
    using f key by (simp add: find_update_stock)
  from ex2 have ex2': "list_ex (\<lambda>r. product_id r = ?pid \<and> stock r < ?q) (Product db)
               = (stock row < ?q)"
    by simp
  show ?thesis
    using un nf
    by (simp add: trg_sale_item_after_insert_def update_product_stock_def ex1 ex2' after)
qed

lemma trg_aborts:
  assumes un: "ifnull (from_make_sale s) 0 = 0"
    and row: "select_product db (item_product_id new) = Some row"
    and neg: "stock row < quantity new"
  shows "\<exists>err. trg_sale_item_after_insert e s db new = Inl err"
proof -
  let ?pid = "item_product_id new" and ?q = "quantity new"
  from row have f: "find (\<lambda>r. product_id r = ?pid) (Product db) = Some row"
    by (simp add: select_product_def)
  then have key: "product_id row = ?pid" by (auto dest: find_key)
  have after: "find (\<lambda>r. product_id r = ?pid)
       (map (\<lambda>r. if product_id r = ?pid then r\<lparr>stock := stock r - ?q\<rparr> else r) (Product db))
      = Some (row\<lparr>stock := stock row - ?q\<rparr>)"
    using f key by (simp add: find_update_stock)
  show ?thesis
    using un neg
    by (simp add: trg_sale_item_after_insert_def update_product_stock_def after)
qed

lemma insert_sale_item_aborts:
  assumes "ifnull (from_make_sale s) 0 = 0"
    and "select_product db pid = Some row"
    and "stock row < q"
  shows "\<exists>err. insert_sale_item e s db sid pid q pr = Inl err"
proof -
  let ?new = "\<lparr>sale_item_id = new_sale_item_id e, item_sale_id = sid,
                 item_product_id = pid, quantity = q, item_price = pr\<rparr>"
  from assms have "\<exists>err. trg_sale_item_after_insert e s
      (db\<lparr>Sale_Item := Sale_Item db @ [?new]\<rparr>) ?new = Inl err"
    by (intro trg_aborts[where row = row]) (simp_all add: select_product_def)
  then show ?thesis
    by (auto simp: insert_sale_item_def Let_def)
qed

lemma insert_sale_item_marked_eq:
  "ifnull (from_make_sale s) 0 \<noteq> 0 \<Longrightarrow> insert_sale_item e s db sid pid q pr = Inr db2 \<Longrightarrow>
     db2 = db\<lparr>Sale_Item := Sale_Item db @ [\<lparr>sale_item_id = new_sale_item_id e, item_sale_id = sid, item_product_id = pid, quantity = q, item_price = pr\<rparr>]\<rparr>"
  by (simp add: insert_sale_item_marked)

lemma trg_keeps_line_items:
  "trg_sale_item_after_insert e s db new = Inr db' \<Longrightarrow>
     Sale_Item db' = Sale_Item db \<and> Sale db' = Sale db \<and> Payment db' = Payment db \<and>
     (Product db' = Product db \<or>
      Product db' = map (\<lambda>r. if product_id r = item_product_id new
                               then r\<lparr>stock := stock r - quantity new\<rparr> else r) (Product db))"
  by (auto simp: trg_sale_item_after_insert_def split: if_splits sum.splits option.splits
      dest!: update_product_stock_Inr)

lemma insert_sale_item_Inr:
  assumes "insert_sale_item e s db sid pid q pr = Inr db'"
  shows "new_sale_item_id e \<notin> set (map sale_item_id (Sale_Item db)) \<and>
     Sale_Item db' = Sale_Item db @ [\<lparr>sale_item_id = new_sale_item_id e, item_sale_id = sid,
        item_product_id = pid, quantity = q, item_price = pr\<rparr>] \<and>
     Sale db' = Sale db \<and> Payment db' = Payment db"
  using assms
  by (auto simp: insert_sale_item_def Let_def split: if_splits dest!: trg_keeps_line_items)

lemma update_payment_mode_Inr:
  "update_payment_mode e db m sid = Inr db' \<Longrightarrow>
     db' = db\<lparr>Payment := map (\<lambda>r. if payment_sale_id r = sid then r\<lparr>mode := m\<rparr> else r) (Payment db)\<rparr>"
  by (auto simp: update_payment_mode_def split: if_splits)

lemma filter_fresh: "k \<notin> set (map f xs) \<Longrightarrow> filter (\<lambda>r. f r = k) xs = []"
  by (induction xs) auto

lemma filter_append_fresh:
  assumes "filter (\<lambda>r. sale_item_id r = k) xs = [row]" and "sale_item_id new \<notin> set (map sale_item_id xs)"
  shows "filter (\<lambda>r. sale_item_id r = k) (xs @ [new]) = [row]"
proof -
  from assms(1) have "row \<in> set (filter (\<lambda>r. sale_item_id r = k) xs)" by simp
  then have "k \<in> set (map sale_item_id xs)" by auto
  with assms(2) have "sale_item_id new \<noteq> k" by auto
  with assms(1) show ?thesis by simp
qed

lemma line_item_kept:
  assumes "filter (\<lambda>r. sale_item_id r = k) (Sale_Item (tables sv)) = [row]"
  shows "filter (\<lambda>r. sale_item_id r = k) (Sale_Item (tables (run sv evs))) = [row]"
proof (rule run_preserves[where P = "\<lambda>db. filter (\<lambda>r. sale_item_id r = k) (Sale_Item db) = [row]"])
  fix e s db c p q sp s' db' out
  assume P: "filter (\<lambda>r. sale_item_id r = k) (Sale_Item db) = [row]"
    and m: "make_sale e s db c p q sp = (s', db', Inr out)"
  obtain sid tot where "out = (sid, tot)" by (cases out)
  with m have "make_sale e s db c p q sp = (s', db', Inr (sid, tot))" by simp
  from make_sale_success[OF this] obtain new where
    "Sale_Item db' = Sale_Item db @ [new]" "sale_item_id new \<notin> set (map sale_item_id (Sale_Item db))"
    by auto
  with filter_append_fresh[OF P, of new]
  show "filter (\<lambda>r. sale_item_id r = k) (Sale_Item db') = [row]"
    by simp
next
  fix e s db sid pid q pr db'
  assume P: "filter (\<lambda>r. sale_item_id r = k) (Sale_Item db) = [row]"
    and m: "insert_sale_item e s db sid pid q pr = Inr db'"
  from insert_sale_item_Inr[OF m] obtain new where
    "Sale_Item db' = Sale_Item db @ [new]" "sale_item_id new \<notin> set (map sale_item_id (Sale_Item db))"
    by auto
  with filter_append_fresh[OF P, of new]
  show "filter (\<lambda>r. sale_item_id r = k) (Sale_Item db') = [row]"
    by simp
next
  fix e db m sid db'
  assume "filter (\<lambda>r. sale_item_id r = k) (Sale_Item db) = [row]"
    and "update_payment_mode e db m sid = Inr db'"
  then show "filter (\<lambda>r. sale_item_id r = k) (Sale_Item db') = [row]"
    by (auto dest!: update_payment_mode_Inr)
next
  fix db :: database and ps
  assume "filter (\<lambda>r. sale_item_id r = k) (Sale_Item db) = [row]"
  then show "filter (\<lambda>r. sale_item_id r = k) (Sale_Item (db\<lparr>Product := ps\<rparr>)) = [row]"
    by simp
next
  show "filter (\<lambda>r. sale_item_id r = k) (Sale_Item (tables sv)) = [row]" by (rule assms)
qed

lemma scenario_sale:
  "make_sale scenario_env fresh_session scenario_db (Some 1) (Some 1) (Some 2) (Some 0) =
     (\<lparr>from_make_sale = Some 0\<rparr>, scenario_sold, Inr (1, 25998))"
  by (simp add: stmt_defs scenario_defs scenario_sold_def)

lemma scenario_item_one:
  "select_product scenario_db 1 = Some \<lparr>product_id = 1, name = ''Item one'',
     category = ''Phone'', price = 12999, stock = 30, description = None\<rparr>"
  by (simp add: select_product_def scenario_defs)

lemma count_update_mode:
  "filter (\<lambda>p. payment_sale_id p = k)
     (map (\<lambda>r. if payment_sale_id r = sid then r\<lparr>mode := m\<rparr> else r) ps) =
   map (\<lambda>r. if payment_sale_id r = sid then r\<lparr>mode := m\<rparr> else r)
     (filter (\<lambda>p. payment_sale_id p = k) ps)"
  by (induction ps) auto

lemma keys_update_mode:
  "map (\<lambda>p. (payment_id p, payment_sale_id p, status p))
     (map (\<lambda>r. if payment_sale_id r = sid then r\<lparr>mode := m\<rparr> else r) ps) =
   map (\<lambda>p. (payment_id p, payment_sale_id p, status p)) ps"
  by (induction ps) auto

lemma payments_ok_make_sale:
  assumes ok: "payments_ok db" and m: "make_sale e s db c p q sp = (s', db', Inr out)"
  shows "payments_ok db'"
proof -
  obtain sid tot where "out = (sid, tot)" by (cases out)
  with m have "make_sale e s db c p q sp = (s', db', Inr (sid, tot))" by simp
  from make_sale_success[OF this] obtain newsale where
    fr: "sid \<notin> set (map sale_id (Sale db))" and
    S: "Sale db' = Sale db @ [newsale]" and sn: "sale_id newsale = sid" and
    P: "Payment db' = Payment db @ [\<lparr>payment_id = new_payment_id e, payment_sale_id = sid,
         mode = ''CASH'', status = ''SUCCESS''\<rparr>]"
    by auto
  from ok have one: "\<And>r. r \<in> set (Sale db) \<Longrightarrow>
      length (filter (\<lambda>p. payment_sale_id p = sale_id r) (Payment db)) = 1"
    and fk: "\<And>p. p \<in> set (Payment db) \<Longrightarrow> payment_sale_id p \<in> set (map sale_id (Sale db))"
    by (auto simp: payments_ok_def list_all_iff)
  have none: "filter (\<lambda>p. payment_sale_id p = sid) (Payment db) = []"
    using fk fr by (auto simp: filter_empty_conv)
  have old: "length (filter (\<lambda>p. payment_sale_id p = sale_id r) (Payment db')) = 1"
    if "r \<in> set (Sale db)" for r
  proof -
    from that fr have "sale_id r \<noteq> sid" by auto
    with one[OF that] show ?thesis by (simp add: P)
  qed
  have new: "length (filter (\<lambda>p. payment_sale_id p = sale_id newsale) (Payment db')) = 1"
    using none by (simp add: P sn)
  have fk': "payment_sale_id p \<in> set (map sale_id (Sale db'))" if "p \<in> set (Payment db')" for p
    using that fk by (auto simp: P S sn)
  show ?thesis
    unfolding payments_ok_def list_all_iff
    using old new fk' by (auto simp: S)
qed

lemma payments_ok_update_mode:
  assumes ok: "payments_ok db" and m: "update_payment_mode e db md sid = Inr db'"
  shows "payments_ok db'"
  using ok unfolding update_payment_mode_Inr[OF m] payments_ok_def list_all_iff
  by (auto simp: count_update_mode)

lemma payments_ok_run: "payments_ok (tables sv) \<Longrightarrow> payments_ok (tables (run sv evs))"
proof (rule run_preserves[where P = payments_ok])
  fix e s db sid pid q pr db'
  assume "payments_ok db" and "insert_sale_item e s db sid pid q pr = Inr db'"
  then show "payments_ok db'"
    by (auto simp: payments_ok_def dest!: insert_sale_item_Inr)
next
  fix db :: database and ps
  assume "payments_ok db"
  then show "payments_ok (db\<lparr>Product := ps\<rparr>)"
    by (simp add: payments_ok_def)
qed (auto intro: payments_ok_make_sale payments_ok_update_mode)

lemma step_non_sale_payment_keys:
  "payment_keys (tables (step sv (Insert_bypassing cn e sid pid q pr))) = payment_keys (tables sv)"
  "payment_keys (tables (step sv (Set_payment_mode e m sid))) = payment_keys (tables sv)"
  "payment_keys (tables (step sv (Catalog_write f))) = payment_keys (tables sv)"
  by (auto simp: payment_keys_def keys_update_mode split: sum.splits
      dest!: insert_sale_item_Inr update_payment_mode_Inr)

lemma post_sale_payment_keys:
  assumes "post_sale ip e s db req = (s2, db2, r)"
  shows "payment_keys db2 = payment_keys db \<or>
     (\<exists>c p q sp s1 db1 out. make_sale e s db c p q sp = (s1, db1, Inr out) \<and>
        payment_keys db2 = payment_keys db1)"
proof -
  from post_sale_tables[OF assms] consider "db2 = db"
    | c p q sp s1 db1 out where "make_sale e s db c p q sp = (s1, db1, Inr out)" "db2 = db1"
    | c p q sp s1 db1 out m sid where "make_sale e s db c p q sp = (s1, db1, Inr out)"
        "update_payment_mode e db1 m sid = Inr db2"
    by blast
  then show ?thesis
  proof cases
    case 1
    then show ?thesis by simp
  next
    case 2
    then show ?thesis by blast
  next
    case 3
    from update_payment_mode_Inr[OF 3(2)] have "payment_keys db2 = payment_keys db1"
      by (simp add: payment_keys_def keys_update_mode)
    with 3(1) show ?thesis by blast
  qed
qed

lemma products_ok_trg:
  assumes ok: "products_ok db" and t: "trg_sale_item_after_insert e s db new = Inr db'"
  shows "products_ok db'"
proof (cases "ifnull (from_make_sale s) 0 = 0")
  case False
  with t ok show ?thesis by (simp add: trg_skipped)
next
  case True
  let ?pid = "item_product_id new" and ?q = "quantity new"
  let ?upd = "map (\<lambda>r. if product_id r = ?pid then r\<lparr>stock := stock r - ?q\<rparr> else r) (Product db)"
  from ok have d: "distinct (map product_id (Product db))"
    and nn: "\<And>r. r \<in> set (Product db) \<Longrightarrow> 0 \<le> stock r"
    by (auto simp: products_ok_def list_all_iff)
  from True t obtain db1 where u: "update_product_stock e db ?pid ?q = Inr db1"
    by (auto simp: trg_sale_item_after_insert_def split: sum.splits)
  from update_product_stock_Inr[OF u] have db1: "db1 = db\<lparr>Product := ?upd\<rparr>" .
  show ?thesis
  proof (cases "find (\<lambda>r. product_id r = ?pid) (Product db)")
    case None
    then have "\<And>r. r \<in> set (Product db) \<Longrightarrow> product_id r \<noteq> ?pid"
      by (auto simp: find_None_iff)
    then have same: "?upd = Product db" by (induction "Product db") (auto simp: map_idI)
    from True t u None have "db' = db1"
      by (simp add: trg_sale_item_after_insert_def db1 find_update_stock)
    with db1 same ok show ?thesis by (simp add: products_ok_def)
  next
    case (Some row)
    then have key: "product_id row = ?pid" by (auto dest: find_key)
    from Some key have after: "find (\<lambda>r. product_id r = ?pid) ?upd = Some (row\<lparr>stock := stock row - ?q\<rparr>)"
      by (simp add: find_update_stock)
    from True t u after have ge: "0 \<le> stock row - ?q" and eq: "db' = db1"
      by (auto simp: trg_sale_item_after_insert_def db1 split: if_splits)
    have "0 \<le> stock r" if "r \<in> set ?upd" for r
    proof -
      from that obtain r0 where r0: "r0 \<in> set (Product db)"
        and r: "r = (if product_id r0 = ?pid then r0\<lparr>stock := stock r0 - ?q\<rparr> else r0)"
        by auto
      show ?thesis
      proof (cases "product_id r0 = ?pid")
        case True
        with distinct_key_unique[OF d Some r0] have "r0 = row" by simp
        with r True ge show ?thesis by simp
      next
        case False
        with r nn[OF r0] show ?thesis by simp
      qed
    qed
    moreover have "distinct (map product_id ?upd)"
      using d by (simp only: ids_update_stock)
    ultimately show ?thesis
      by (simp add: products_ok_def list_all_iff eq db1)
  qed
qed

lemma products_ok_insert_sale_item:
  assumes "products_ok db" and "insert_sale_item e s db sid pid q pr = Inr db'"
  shows "products_ok db'"
proof -
  let ?new = "\<lparr>sale_item_id = new_sale_item_id e, item_sale_id = sid,
                 item_product_id = pid, quantity = q, item_price = pr\<rparr>"
  from assms(2) have t: "trg_sale_item_after_insert e s (db\<lparr>Sale_Item := Sale_Item db @ [?new]\<rparr>) ?new = Inr db'"
    by (simp add: insert_sale_item_def Let_def split: if_splits)
  from assms(1) have "products_ok (db\<lparr>Sale_Item := Sale_Item db @ [?new]\<rparr>)"
    by (simp add: products_ok_def)
  from products_ok_trg[OF this t] show ?thesis .
qed

lemma products_ok_make_sale:
  assumes ok: "products_ok db" and m: "make_sale e s db c p q sp = (s', db', Inr out)"
  shows "products_ok db'"
proof -
  obtain sid tot where "out = (sid, tot)" by (cases out)
  with m have "make_sale e s db c p q sp = (s', db', Inr (sid, tot))" by simp
  from make_sale_success[OF this] obtain pid qq row where
    row: "select_product db pid = Some row" and le: "qq \<le> stock row" and
    P: "Product db' = map (\<lambda>r. if product_id r = pid then r\<lparr>stock := stock r - qq\<rparr> else r) (Product db)"
    by auto
  from ok have d: "distinct (map product_id (Product db))"
    and nn: "\<And>r. r \<in> set (Product db) \<Longrightarrow> 0 \<le> stock r"
    by (auto simp: products_ok_def list_all_iff)
  from row have f: "find (\<lambda>r. product_id r = pid) (Product db) = Some row"
    by (simp add: select_product_def)
  have "0 \<le> stock r" if "r \<in> set (Product db')" for r
  proof -
    from that obtain r0 where r0: "r0 \<in> set (Product db)"
      and r: "r = (if product_id r0 = pid then r0\<lparr>stock := stock r0 - qq\<rparr> else r0)"
      unfolding P by auto
    show ?thesis
    proof (cases "product_id r0 = pid")
      case True
      with distinct_key_unique[OF d f r0] have "r0 = row" by simp
      with r True le show ?thesis by simp
    next
      case False
      with r nn[OF r0] show ?thesis by simp
    qed
  qed
  moreover have "distinct (map product_id (Product db'))"
    using d by (simp only: P ids_update_stock)
  ultimately show ?thesis
    by (simp add: products_ok_def list_all_iff)
qed

section \<open>The invariant of concurrent calls\<close>

lemma select_other:
  "pid' \<noteq> pid \<Longrightarrow>
     find (\<lambda>r. product_id r = pid') (map (\<lambda>r. if product_id r = pid then r\<lparr>stock := f r\<rparr> else r) xs) =
     find (\<lambda>r. product_id r = pid') xs"
  by (induction xs) auto

lemma ids_update_stock_comp:
  "map (product_id \<circ> (\<lambda>r. if product_id r = pid then r\<lparr>stock := f r\<rparr> else r)) xs =
   map product_id xs"
  by (induction xs) auto

lemma products_ok_restore:
  assumes "products_ok db" and "0 \<le> q"
  shows "products_ok (restore_stock pid q db)"
proof -
  from assms(1) have d: "distinct (map product_id (Product db))"
    and nn: "\<forall>r\<in>set (Product db). 0 \<le> stock r"
    by (auto simp: products_ok_def list_all_iff)
  have "distinct (map product_id (Product (restore_stock pid q db)))"
    using d by (simp add: restore_stock_def ids_update_stock_comp)
  moreover have "\<forall>r\<in>set (Product (restore_stock pid q db)). 0 \<le> stock r"
    using nn assms(2) by (auto simp: restore_stock_def)
  ultimately show ?thesis by (simp add: products_ok_def list_all_iff)
qed

lemma products_ok_undo:
  "products_ok db \<Longrightarrow> 0 \<le> q \<Longrightarrow> products_ok (undo pr pid q db)"
proof (cases pr)
  case Selected
  assume "products_ok db"
  with Selected show ?thesis by simp
next
  case (Sale_inserted x)
  assume "products_ok db"
  with Sale_inserted show ?thesis by (simp add: products_ok_def delete_sale_def)
next
  case (Item_inserted x y)
  assume "products_ok db"
  with Item_inserted show ?thesis
    by (simp add: products_ok_def delete_sale_def delete_sale_item_def)
next
  case (Stock_updated x y)
  assume "products_ok db" "0 \<le> q"
  then have "products_ok (restore_stock pid q db)" by (rule products_ok_restore)
  with Stock_updated show ?thesis
    by (simp add: products_ok_def delete_sale_def delete_sale_item_def)
next
  case (Total_updated x y)
  assume "products_ok db" "0 \<le> q"
  then have "products_ok (restore_stock pid q db)" by (rule products_ok_restore)
  with Total_updated show ?thesis
    by (simp add: products_ok_def delete_sale_def delete_sale_item_def)
next
  case (Payment_inserted x y z)
  assume "products_ok db" "0 \<le> q"
  then have "products_ok (delete_payment z db)" by (simp add: products_ok_def delete_payment_def)
  from this \<open>0 \<le> q\<close> have "products_ok (restore_stock pid q (delete_payment z db))"
    by (rule products_ok_restore)
  with Payment_inserted show ?thesis
    by (simp add: products_ok_def delete_sale_def delete_sale_item_def)
qed

lemma select_undo_other:
  "pid' \<noteq> pid \<Longrightarrow> select_product (undo pr pid q db) pid' = select_product db pid'"
  by (cases pr)
     (simp_all add: select_product_def delete_sale_def delete_sale_item_def delete_payment_def
        restore_stock_def select_other)

lemma calls_ok_frame:
  assumes ok: "calls_ok cs"
    and p: "products_ok (store cs')"
    and sel: "\<And>pid'. pid' \<noteq> pid \<Longrightarrow> select_product (store cs') pid' = select_product (store cs) pid'"
    and lk: "\<And>c' x. c' \<noteq> c \<Longrightarrow> locks cs x = Some c' \<Longrightarrow> locks cs' x = Some c'"
    and rn: "\<And>c'. c' \<noteq> c \<Longrightarrow> running cs' c' = running cs c'"
    and other: "\<And>c' k'. c' \<noteq> c \<Longrightarrow> running cs c' = Some k' \<Longrightarrow> arg_product k' \<noteq> pid"
    and own: "\<And>k. running cs' c = Some k \<Longrightarrow> call_ok cs' c k"
  shows "calls_ok cs'"
  unfolding calls_ok_def
proof (intro conjI allI impI)
  show "products_ok (store cs')" by (rule p)
next
  fix c' k'
  assume r: "running cs' c' = Some k'"
  show "call_ok cs' c' k'"
  proof (cases "c' = c")
    case True
    with r own show ?thesis by simp
  next
    case False
    with r rn have r0: "running cs c' = Some k'" by simp
    with ok have c0: "call_ok cs c' k'" by (simp add: calls_ok_def)
    from other[OF False r0] have ne: "arg_product k' \<noteq> pid" .
    from c0 lk[OF False] sel[OF ne] show ?thesis
      by (simp add: call_ok_def enough_stock_def)
  qed
qed

lemma own_lock_excludes:
  assumes ok: "calls_ok cs" and k: "running cs c = Some k"
    and r: "running cs c' = Some k'" and ne: "c' \<noteq> c"
  shows "arg_product k' \<noteq> arg_product k"
proof
  assume "arg_product k' = arg_product k"
  moreover from ok k have "locks cs (Product_row (arg_product k)) = Some c"
    by (simp add: calls_ok_def call_ok_def)
  moreover from ok r have "locks cs (Product_row (arg_product k')) = Some c'"
    by (simp add: calls_ok_def call_ok_def)
  ultimately show False using ne by simp
qed

lemma free_row_excludes:
  assumes ok: "calls_ok cs" and f: "locks cs (Product_row pid) = None"
    and r: "running cs c' = Some k'"
  shows "arg_product k' \<noteq> pid"
proof
  assume "arg_product k' = pid"
  moreover from ok r have "locks cs (Product_row (arg_product k')) = Some c'"
    by (simp add: calls_ok_def call_ok_def)
  ultimately show False using f by simp
qed

lemma calls_ok_begin:
  assumes ok: "calls_ok cs"
  shows "calls_ok (fst (begin_make_sale e c cu p q sp cs))"
proof (cases "snd (begin_make_sale e c cu p q sp cs) = Proceeding")
  case False
  then have "fst (begin_make_sale e c cu p q sp cs) = cs"
    by (auto simp: begin_make_sale_def split: option.splits if_splits)
  with ok show ?thesis by simp
next
  case True
  then obtain pid where p: "p = Some pid"
    by (cases p) (auto simp: begin_make_sale_def split: option.splits if_splits)
  from True obtain qq where qq: "q = Some qq"
    by (cases q) (auto simp: begin_make_sale_def split: option.splits if_splits)
  from True p qq obtain row where row: "select_product (store cs) pid = Some row"
    by (cases "select_product (store cs) pid")
       (auto simp: begin_make_sale_def split: option.splits if_splits)
  from True p qq row have
    idle: "running cs c = None" and free: "locks cs (Product_row pid) = None" and
    q: "0 < qq" and le: "qq \<le> stock row"
    by (auto simp: begin_make_sale_def split: if_splits)
  from True p qq row have
    st: "fst (begin_make_sale e c cu p q sp cs) =
       cs\<lparr>locks := (locks cs)(Product_row pid \<mapsto> c),
           running := (running cs)(c \<mapsto>
             \<lparr>arg_customer = cu, arg_product = pid, arg_quantity = qq,
              arg_salesperson = sp, var_price = price row,
              var_stock = stock row, progress = Selected\<rparr>)\<rparr>"
    by (auto simp: begin_make_sale_def split: if_splits)
  show ?thesis
    unfolding st
  proof (rule calls_ok_frame[OF ok, where c = c and pid = pid])
    fix c' k' assume "c' \<noteq> c" "running cs c' = Some k'"
    with free_row_excludes[OF ok free] show "arg_product k' \<noteq> pid" by simp
  next
    fix c' x assume "c' \<noteq> c" "locks cs x = Some c'"
    with free show "locks (cs\<lparr>locks := (locks cs)(Product_row pid \<mapsto> c),
           running := (running cs)(c \<mapsto>
             \<lparr>arg_customer = cu, arg_product = pid, arg_quantity = qq,
              arg_salesperson = sp, var_price = price row,
              var_stock = stock row, progress = Selected\<rparr>)\<rparr>) x = Some c'"
      by auto
  qed (use ok q row le in \<open>auto simp: calls_ok_def call_ok_def enough_stock_def\<close>)
qed

lemma calls_ok_exit_handler:
  assumes ok: "calls_ok cs" and k: "running cs c = Some k"
  shows "calls_ok (fst (exit_handler c k err cs))"
  unfolding exit_handler_def fst_conv
proof (rule calls_ok_frame[OF ok, where c = c and pid = "arg_product k"])
  from ok k have "0 < arg_quantity k" by (simp add: calls_ok_def call_ok_def)
  with ok show "products_ok (store (cs\<lparr>store := rollback k (store cs), locks := release c (locks cs),
         running := (running cs)(c := None)\<rparr>))"
    by (simp add: rollback_def products_ok_undo calls_ok_def)
next
  fix pid' assume "pid' \<noteq> arg_product k"
  then show "select_product (store (cs\<lparr>store := rollback k (store cs), locks := release c (locks cs),
         running := (running cs)(c := None)\<rparr>)) pid' = select_product (store cs) pid'"
    by (simp add: rollback_def select_undo_other)
next
  fix c' k' assume "c' \<noteq> c" "running cs c' = Some k'"
  then show "arg_product k' \<noteq> arg_product k"
    using own_lock_excludes[OF ok k] by simp
qed (auto simp: release_def)

lemma calls_ok_commit:
  assumes ok: "calls_ok cs" and k: "running cs c = Some k"
  shows "calls_ok (cs\<lparr>locks := release c (locks cs), running := (running cs)(c := None)\<rparr>)"
proof (rule calls_ok_frame[OF ok, where c = c and pid = "arg_product k"])
  fix c' k' assume "c' \<noteq> c" "running cs c' = Some k'"
  then show "arg_product k' \<noteq> arg_product k"
    using own_lock_excludes[OF ok k] by simp
qed (use ok in \<open>auto simp: release_def calls_ok_def\<close>)

lemma calls_ok_proceed:
  assumes ok: "calls_ok cs" and k: "running cs c = Some k"
    and p: "products_ok db"
    and sel: "\<And>pid'. pid' \<noteq> arg_product k \<Longrightarrow> select_product db pid' = select_product (store cs) pid'"
    and own: "\<not> stock_taken pr \<Longrightarrow>
       \<not> stock_taken (progress k) \<and>
       select_product db (arg_product k) = select_product (store cs) (arg_product k)"
  shows "calls_ok (fst (proceed c k pr db cs))"
  unfolding proceed_def fst_conv
proof (rule calls_ok_frame[OF ok, where c = c and pid = "arg_product k"])
  fix c' k' assume "c' \<noteq> c" "running cs c' = Some k'"
  then show "arg_product k' \<noteq> arg_product k"
    using own_lock_excludes[OF ok k] by simp
next
  fix k'
  assume "running (cs\<lparr>store := db, running := (running cs)(c \<mapsto> k\<lparr>progress := pr\<rparr>)\<rparr>) c = Some k'"
  then have k': "k' = k\<lparr>progress := pr\<rparr>" by simp
  from ok k have c0: "call_ok cs c k" by (simp add: calls_ok_def)
  show "call_ok (cs\<lparr>store := db, running := (running cs)(c \<mapsto> k\<lparr>progress := pr\<rparr>)\<rparr>) c k'"
  proof (cases "stock_taken pr")
    case True
    with c0 show ?thesis by (simp add: call_ok_def k')
  next
    case False
    from own[OF False] c0 False show ?thesis by (simp add: call_ok_def enough_stock_def k')
  qed
qed (use p sel in auto)

lemma calls_ok_ignore:
  "calls_ok (cs\<lparr>user_variable := u\<rparr>) = calls_ok cs"
  "calls_ok (cs\<lparr>locks := (locks cs)(Sale_row sid \<mapsto> c)\<rparr>) = calls_ok cs"
  by (simp_all add: calls_ok_def call_ok_def)

lemma same_products:
  "Product db' = Product db \<Longrightarrow> products_ok db' = products_ok db"
  "Product db' = Product db \<Longrightarrow> select_product db' pid = select_product db pid"
  by (simp_all add: products_ok_def select_product_def)

lemma insert_sale_Product: "insert_sale e db cu sp = Inr (db1, sid) \<Longrightarrow> Product db1 = Product db"
  by (auto dest!: insert_sale_Inr)

lemma insert_marked_Product:
  "insert_sale_item e (s\<lparr>from_make_sale := Some 1\<rparr>) db sid pid q pr = Inr db2 \<Longrightarrow>
     Product db2 = Product db"
  by (auto dest!: insert_sale_item_marked[rotated] simp: ifnull_def)

lemma update_sale_total_Product: "update_sale_total e db sid t = Inr db4 \<Longrightarrow> Product db4 = Product db"
  by (auto dest!: update_sale_total_Inr)

lemma insert_payment_Product: "insert_payment e db sid m st = Inr db5 \<Longrightarrow> Product db5 = Product db"
  by (auto dest!: insert_payment_Inr)

lemma products_ok_take:
  assumes ok: "products_ok db" and row: "select_product db pid = Some row" and le: "q \<le> stock row"
    and u: "update_product_stock e db pid q = Inr db3"
  shows "products_ok db3"
proof -
  from update_product_stock_Inr[OF u] have
    P: "Product db3 = map (\<lambda>r. if product_id r = pid then r\<lparr>stock := stock r - q\<rparr> else r) (Product db)"
    by simp
  from ok have d: "distinct (map product_id (Product db))"
    and nn: "\<And>r. r \<in> set (Product db) \<Longrightarrow> 0 \<le> stock r"
    by (auto simp: products_ok_def list_all_iff)
  from row have f: "find (\<lambda>r. product_id r = pid) (Product db) = Some row"
    by (simp add: select_product_def)
  have "0 \<le> stock r" if "r \<in> set (Product db3)" for r
  proof -
    from that obtain r0 where r0: "r0 \<in> set (Product db)"
      and r: "r = (if product_id r0 = pid then r0\<lparr>stock := stock r0 - q\<rparr> else r0)"
      unfolding P by auto
    show ?thesis
    proof (cases "product_id r0 = pid")
      case True
      with distinct_key_unique[OF d f r0] have "r0 = row" by simp
      with r True le show ?thesis by simp
    next
      case False
      with r nn[OF r0] show ?thesis by simp
    qed
  qed
  moreover have "distinct (map product_id (Product db3))"
    using d by (simp only: P ids_update_stock)
  ultimately show ?thesis
    by (simp add: products_ok_def list_all_iff)
qed

lemma select_after_take:
  "update_product_stock e db pid q = Inr db3 \<Longrightarrow> pid' \<noteq> pid \<Longrightarrow>
     select_product db3 pid' = select_product db pid'"
  by (auto dest!: update_product_stock_Inr simp: select_product_def select_other)

lemma calls_ok_next:
  assumes ok: "calls_ok cs"
  shows "calls_ok (fst (next_statement e c cs))"
proof (cases "running cs c")
  case None
  with ok show ?thesis by (simp add: next_statement_def)
next
  case (Some k)
  from ok Some have c0: "call_ok cs c k" by (simp add: calls_ok_def)
  from ok have p0: "products_ok (store cs)" by (simp add: calls_ok_def)
  show ?thesis
  proof (cases "progress k")
    case Selected
    show ?thesis
    proof (cases "insert_sale e (store cs) (arg_customer k) (nullif (arg_salesperson k) 0)")
      case (Inl err)
      with Some Selected ok show ?thesis
        by (simp add: next_statement_def calls_ok_exit_handler)
    next
      case (Inr res)
      obtain db1 sid where res: "res = (db1, sid)" by (cases res)
      from Inr res have P: "Product db1 = Product (store cs)" by (auto dest: insert_sale_Product)
      let ?cs = "cs\<lparr>locks := (locks cs)(Sale_row sid \<mapsto> c)\<rparr>"
      have "calls_ok (fst (proceed c k (Sale_inserted sid) db1 ?cs))"
        by (rule calls_ok_proceed)
           (use ok Some p0 Selected in \<open>simp_all add: calls_ok_ignore same_products[OF P]\<close>)
      with Some Selected Inr res show ?thesis by (simp add: next_statement_def)
    qed
  next
    case (Sale_inserted sid)
    let ?s = "(user_variable cs c)\<lparr>from_make_sale := Some 1\<rparr>"
    show ?thesis
    proof (cases "insert_sale_item e ?s (store cs) sid (arg_product k) (arg_quantity k) (var_price k)")
      case (Inl err)
      have "calls_ok (fst (exit_handler c k err (cs\<lparr>user_variable := (user_variable cs)(c := ?s)\<rparr>)))"
        by (rule calls_ok_exit_handler) (use ok Some in \<open>simp_all add: calls_ok_ignore\<close>)
      with Some Sale_inserted Inl show ?thesis by (simp add: next_statement_def)
    next
      case (Inr db2)
      then have P: "Product db2 = Product (store cs)" by (rule insert_marked_Product)
      let ?cs = "cs\<lparr>user_variable := (user_variable cs)
                       (c := (user_variable cs c)\<lparr>from_make_sale := Some 0\<rparr>)\<rparr>"
      have "calls_ok (fst (proceed c k (Item_inserted sid (new_sale_item_id e)) db2 ?cs))"
        by (rule calls_ok_proceed)
           (use ok Some p0 Sale_inserted in \<open>simp_all add: calls_ok_ignore same_products[OF P]\<close>)
      with Some Sale_inserted Inr show ?thesis by (simp add: next_statement_def)
    qed
  next
    case (Item_inserted sid item)
    show ?thesis
    proof (cases "update_product_stock e (store cs) (arg_product k) (arg_quantity k)")
      case (Inl err)
      with Some Item_inserted ok show ?thesis
        by (simp add: next_statement_def calls_ok_exit_handler)
    next
      case (Inr db3)
      from c0 Item_inserted obtain row where row: "select_product (store cs) (arg_product k) = Some row"
        and le: "arg_quantity k \<le> stock row"
        by (auto simp: call_ok_def enough_stock_def split: option.splits)
      have "calls_ok (fst (proceed c k (Stock_updated sid item) db3 cs))"
      proof (rule calls_ok_proceed[OF ok Some])
        show "products_ok db3" by (rule products_ok_take[OF p0 row le Inr])
      next
        fix pid' assume "pid' \<noteq> arg_product k"
        with Inr show "select_product db3 pid' = select_product (store cs) pid'"
          by (rule select_after_take)
      qed simp
      with Some Item_inserted Inr show ?thesis by (simp add: next_statement_def)
    qed
  next
    case (Stock_updated sid item)
    show ?thesis
    proof (cases "decimal_10_2 (var_price k * arg_quantity k)")
      case False
      with Some Stock_updated ok show ?thesis
        by (simp add: next_statement_def calls_ok_exit_handler)
    next
      case True
      show ?thesis
      proof (cases "update_sale_total e (store cs) sid (var_price k * arg_quantity k)")
        case (Inl err)
        with Some Stock_updated ok True show ?thesis
          by (simp add: next_statement_def calls_ok_exit_handler)
      next
        case (Inr db4)
        then have P: "Product db4 = Product (store cs)" by (rule update_sale_total_Product)
        have "calls_ok (fst (proceed c k (Total_updated sid item) db4 cs))"
          by (rule calls_ok_proceed[OF ok Some]) (use p0 in \<open>simp_all add: same_products[OF P]\<close>)
        with Some Stock_updated Inr True show ?thesis by (simp add: next_statement_def)
      qed
    qed
  next
    case (Total_updated sid item)
    show ?thesis
    proof (cases "insert_payment e (store cs) sid ''CASH'' ''SUCCESS''")
      case (Inl err)
      with Some Total_updated ok show ?thesis
        by (simp add: next_statement_def calls_ok_exit_handler)
    next
      case (Inr db5)
      then have P: "Product db5 = Product (store cs)" by (rule insert_payment_Product)
      have "calls_ok (fst (proceed c k (Payment_inserted sid item (new_payment_id e)) db5 cs))"
        by (rule calls_ok_proceed[OF ok Some]) (use p0 in \<open>simp_all add: same_products[OF P]\<close>)
      with Some Total_updated Inr show ?thesis by (simp add: next_statement_def)
    qed
  next
    case (Payment_inserted sid item pay)
    with Some ok show ?thesis
      by (simp add: next_statement_def calls_ok_exit_handler calls_ok_commit)
  qed
qed

lemma select_after_insert:
  assumes "insert_sale_item e s db sid pid q pr = Inr db'" and "pid' \<noteq> pid"
  shows "select_product db' pid' = select_product db pid'"
proof -
  let ?new = "\<lparr>sale_item_id = new_sale_item_id e, item_sale_id = sid,
                 item_product_id = pid, quantity = q, item_price = pr\<rparr>"
  from assms(1) have "trg_sale_item_after_insert e s (db\<lparr>Sale_Item := Sale_Item db @ [?new]\<rparr>) ?new = Inr db'"
    by (simp add: insert_sale_item_def Let_def split: if_splits)
  from trg_keeps_line_items[OF this] have
    "Product db' = Product db \<or>
     Product db' = map (\<lambda>r. if product_id r = pid then r\<lparr>stock := stock r - q\<rparr> else r) (Product db)"
    by (simp cong: if_cong)
  with assms(2) show ?thesis
    by (auto simp: select_product_def select_other)
qed

lemma calls_ok_bypass:
  assumes ok: "calls_ok cs"
  shows "calls_ok (fst (bypassing_insert e c sid pid q pr cs))"
proof (cases "snd (bypassing_insert e c sid pid q pr cs) = Proceeding")
  case False
  then have "fst (bypassing_insert e c sid pid q pr cs) = cs"
    by (auto simp: bypassing_insert_def split: sum.splits if_splits)
  with ok show ?thesis by simp
next
  case True
  then obtain db' where idle: "running cs c = None" and free: "locks cs (Product_row pid) = None"
    and ins: "insert_sale_item e (user_variable cs c) (store cs) sid pid q pr = Inr db'"
    and st: "fst (bypassing_insert e c sid pid q pr cs) = cs\<lparr>store := db'\<rparr>"
    by (auto simp: bypassing_insert_def split: sum.splits if_splits)
  from ok have p0: "products_ok (store cs)" by (simp add: calls_ok_def)
  show ?thesis
    unfolding st
  proof (rule calls_ok_frame[OF ok, where c = c and pid = pid])
    show "products_ok (store (cs\<lparr>store := db'\<rparr>))"
      using products_ok_insert_sale_item[OF p0 ins] by simp
  next
    fix pid' assume "pid' \<noteq> pid"
    with select_after_insert[OF ins] show "select_product (store (cs\<lparr>store := db'\<rparr>)) pid' = select_product (store cs) pid'"
      by simp
  next
    fix c' k' assume "c' \<noteq> c" "running cs c' = Some k'"
    with free_row_excludes[OF ok free] show "arg_product k' \<noteq> pid" by simp
  qed (use idle in auto)
qed

lemma calls_ok_act: "calls_ok cs \<Longrightarrow> calls_ok (act cs a)"
  by (cases a) (simp_all add: calls_ok_begin calls_ok_next calls_ok_bypass)

lemma calls_ok_interleave: "calls_ok cs \<Longrightarrow> calls_ok (interleave cs acts)"
  unfolding interleave_def
  by (induction acts arbitrary: cs) (simp_all add: calls_ok_act)

lemma products_ok_committed:
  assumes ok: "calls_ok cs"
  shows "products_ok (committed cs)"
proof -
  have "products_ok (foldr (\<lambda>c db. case running cs c of None \<Rightarrow> db | Some k \<Rightarrow> rollback k db)
      cl (store cs))" for cl
  proof (induction cl)
    case Nil
    from ok show ?case by (simp add: calls_ok_def)
  next
    case (Cons c cl)
    show ?case
    proof (cases "running cs c")
      case None
      with Cons show ?thesis by simp
    next
      case (Some k)
      with ok have "0 < arg_quantity k" by (simp add: calls_ok_def call_ok_def)
      with Cons Some show ?thesis by (simp add: rollback_def products_ok_undo)
    qed
  qed
  then show ?thesis by (simp add: committed_def)
qed

lemmas step_defs = begin_make_sale_def next_statement_def bypassing_insert_def proceed_def
  exit_handler_def release_def rollback_def

section \<open>A call that runs alone is make_sale\<close>

text \<open>
  The statement-by-statement model and \<open>make_sale\<close> agree: on a server on which no
  transaction is running, a call carried out without interruption ends with the
  database, the user variable and the result of \<open>make_sale\<close>, with no lock left and no
  call running. In particular the rollback of the rows written so far gives back the
  database of before the call, at whichever statement the call fails.
\<close>

lemma filter_out_fresh: "k \<notin> set (map f xs) \<Longrightarrow> filter (\<lambda>r. f r \<noteq> k) xs = xs"
  by (induction xs) auto

lemma restore_take:
  "map ((\<lambda>r. if product_id r = pid then r\<lparr>stock := stock r + q\<rparr> else r) \<circ>
        (\<lambda>r. if product_id r = pid then r\<lparr>stock := stock r - q\<rparr> else r)) xs = xs"
  by (induction xs) auto

lemma total_outside:
  "map (\<lambda>r. if sale_id r = sid then r\<lparr>total_amount := t\<rparr> else r)
     (filter (\<lambda>x. sale_id x \<noteq> sid) xs) = filter (\<lambda>x. sale_id x \<noteq> sid) xs"
  by (induction xs) auto

lemma undo_sale: "insert_sale e db cu sp = Inr (db1, sid) \<Longrightarrow> delete_sale sid db1 = db"
  by (auto dest!: insert_sale_Inr simp: delete_sale_def filter_out_fresh)

lemma undo_item:
  "insert_sale_item e (s\<lparr>from_make_sale := Some 1\<rparr>) db1 sid pid q pr = Inr db2 \<Longrightarrow>
     delete_sale_item (new_sale_item_id e) db2 = db1"
  by (auto dest!: insert_sale_item_marked[rotated] simp: delete_sale_item_def filter_out_fresh ifnull_def)

lemma undo_stock: "update_product_stock e db2 pid q = Inr db3 \<Longrightarrow> restore_stock pid q db3 = db2"
  by (auto dest!: update_product_stock_Inr simp: restore_stock_def restore_take)

lemma undo_total:
  "update_sale_total e db3 sid t = Inr db4 \<Longrightarrow>
     delete_sale sid (delete_sale_item iid (restore_stock pid q db4)) =
     delete_sale sid (delete_sale_item iid (restore_stock pid q db3))"
  by (auto dest!: update_sale_total_Inr
      simp: delete_sale_def delete_sale_item_def restore_stock_def filter_map comp_def
        total_outside)

lemma undo_payment:
  "insert_payment e db4 sid m st = Inr db5 \<Longrightarrow> delete_payment (new_payment_id e) db5 = db4"
  by (auto dest!: insert_payment_Inr simp: delete_payment_def filter_out_fresh)

lemma stage_abort:
  assumes "stage c cs cs' k s'" and "running cs c = None"
  shows "exit_handler c k err cs' = (cs\<lparr>user_variable := (user_variable cs)(c := s')\<rparr>, Raised err)"
proof -
  from assms have "(running cs')(c := None) = running cs"
    by (auto simp: stage_def fun_eq_iff)
  moreover from assms(1) have "release c (locks cs') = locks cs"
    by (auto simp: stage_def release_def fun_eq_iff)
  ultimately show ?thesis
    using assms(1) by (auto simp: exit_handler_def stage_def intro!: shared.equality)
qed

lemma stage_commit:
  assumes "stage c cs cs' k s'" and "running cs c = None"
  shows "cs'\<lparr>locks := release c (locks cs'), running := (running cs')(c := None)\<rparr> =
         cs\<lparr>store := store cs', user_variable := (user_variable cs)(c := s')\<rparr>"
proof -
  from assms have "(running cs')(c := None) = running cs"
    by (auto simp: stage_def fun_eq_iff)
  moreover from assms(1) have "release c (locks cs') = locks cs"
    by (auto simp: stage_def release_def fun_eq_iff)
  ultimately show ?thesis
    using assms(1) by (auto simp: stage_def intro!: shared.equality)
qed

lemma stage_proceed:
  assumes "stage c cs cs' k s'" and "rollback (k\<lparr>progress := pr\<rparr>) db = store cs"
  shows "stage c cs (fst (proceed c k pr db cs')) (k\<lparr>progress := pr\<rparr>) s'"
  using assms by (auto simp: stage_def proceed_def)

lemma stage_running: "stage c cs cs' k s' \<Longrightarrow> running cs' c = Some k"
  by (simp add: stage_def)

lemma stage_variable: "stage c cs cs' k s' \<Longrightarrow> user_variable cs' c = s'"
  by (simp add: stage_def)

lemma stage_set_variable:
  "stage c cs cs' k s' \<Longrightarrow>
     stage c cs (cs'\<lparr>user_variable := (user_variable cs')(c := s'')\<rparr>) k s''"
  by (auto simp: stage_def)

lemma stage_lock_sale:
  "stage c cs cs' k s' \<Longrightarrow>
     stage c cs (cs'\<lparr>locks := (locks cs')(Sale_row sid \<mapsto> c)\<rparr>) k s'"
  by (auto simp: stage_def)

lemma finish_step:
  "next_statement e c cs = (cs', Proceeding) \<Longrightarrow> finish (Suc n) e c cs = finish n e c cs'"
  by simp

lemma finish_stop:
  "next_statement e c cs = (cs', r) \<Longrightarrow> r \<noteq> Proceeding \<Longrightarrow> finish (Suc n) e c cs = (cs', r)"
  by (cases r) simp_all

lemma call_alone_is_make_sale:
  assumes cin: "c \<in> set (connections cs)" and idle: "running cs c = None"
    and nl: "locks cs = (\<lambda>_. None)"
  shows "call_alone e c cu p q sp cs =
     (case make_sale e (user_variable cs c) (store cs) cu p q sp of
        (s', db', r) \<Rightarrow>
          (cs\<lparr>store := db', user_variable := (user_variable cs)(c := s')\<rparr>, reply_of r))"
proof -
  let ?s0 = "user_variable cs c" and ?db = "store cs"
  note early = call_alone_def begin_make_sale_def make_sale_def make_sale_body_def reply_of_def
  show ?thesis
  proof (cases q)
    case None
    with cin idle show ?thesis by (simp add: early)
  next
    case (Some qq)
    note q = Some
    show ?thesis
    proof (cases "qq \<le> 0 \<or> fails e Select_Product")
      case True
      with cin idle q show ?thesis by (auto simp: early)
    next
      case False
      note pre = False
      show ?thesis
      proof (cases p)
        case None
        with cin idle q pre show ?thesis by (simp add: early)
      next
        case (Some pid)
        note p = Some
        show ?thesis
        proof (cases "select_product ?db pid")
          case None
          with cin idle q pre p nl show ?thesis by (simp add: early)
        next
          case (Some row)
          note row = Some
          show ?thesis
          proof (cases "stock row < qq")
            case True
            with cin idle q pre p nl row show ?thesis by (simp add: early)
          next
            case False
            note enough = False
            define k0 where "k0 = \<lparr>arg_customer = cu, arg_product = pid, arg_quantity = qq,
              arg_salesperson = sp, var_price = price row, var_stock = stock row,
              progress = Selected\<rparr>"
            define cs1 where "cs1 = cs\<lparr>locks := (locks cs)(Product_row pid \<mapsto> c),
              running := (running cs)(c \<mapsto> k0)\<rparr>"
            have b: "begin_make_sale e c cu p q sp cs = (cs1, Proceeding)"
              using cin idle q pre p nl row enough
              by (simp add: begin_make_sale_def cs1_def k0_def)
            have st1: "stage c cs cs1 k0 ?s0"
              using nl by (auto simp: stage_def cs1_def k0_def rollback_def)
            have db1: "store cs1 = ?db" by (simp add: cs1_def)
            have ca: "call_alone e c cu p q sp cs = finish 6 e c cs1"
              by (simp add: call_alone_def b)
            note body = make_sale_def make_sale_body_def reply_of_def
            show ?thesis
            proof (cases "insert_sale e ?db cu (nullif sp 0)")
              case (Inl err)
              have "next_statement e c cs1 = exit_handler c k0 err cs1"
                using stage_running[OF st1] Inl
                by (simp add: next_statement_def db1 k0_def)
              with stage_abort[OF st1 idle]
              have "finish 6 e c cs1 = (cs\<lparr>user_variable := (user_variable cs)(c := ?s0)\<rparr>, Raised err)"
                by (simp add: eval_nat_numeral)
              with ca q pre p row enough Inl show ?thesis by (simp add: body)
            next
              case (Inr res)
              obtain d1 sid where res: "res = (d1, sid)" by (cases res)
              note i1 = Inr[unfolded res]
              define k1 where "k1 = k0\<lparr>progress := Sale_inserted sid\<rparr>"
              define cs2 where "cs2 = fst (proceed c k0 (Sale_inserted sid) d1
                 (cs1\<lparr>locks := (locks cs1)(Sale_row sid \<mapsto> c)\<rparr>))"
              have n1: "next_statement e c cs1 = (cs2, Proceeding)"
                using stage_running[OF st1] i1
                by (simp add: next_statement_def db1 k0_def cs2_def proceed_def)
              have st2: "stage c cs cs2 k1 ?s0"
                unfolding cs2_def k1_def
                by (rule stage_proceed[OF stage_lock_sale[OF st1]])
                   (simp add: rollback_def k0_def undo_sale[OF i1])
              have db2: "store cs2 = d1" by (simp add: cs2_def proceed_def)
              let ?s1 = "?s0\<lparr>from_make_sale := Some 1\<rparr>"
              show ?thesis
              proof (cases "insert_sale_item e ?s1 d1 sid pid qq (price row)")
                case (Inl err)
                have "next_statement e c cs2 =
                    exit_handler c k1 err (cs2\<lparr>user_variable := (user_variable cs2)(c := ?s1)\<rparr>)"
                  using stage_running[OF st2] stage_variable[OF st2] Inl
                  by (simp add: next_statement_def db2 k1_def k0_def)
                with stage_abort[OF stage_set_variable[OF st2] idle]
                have "finish 5 e c cs2 = (cs\<lparr>user_variable := (user_variable cs)(c := ?s1)\<rparr>, Raised err)"
                  by (simp add: eval_nat_numeral)
                with ca n1 q pre p row enough i1 Inl show ?thesis
                  by (simp add: body eval_nat_numeral)
              next
                case (Inr d2)
                note i2 = Inr
                let ?s2 = "?s0\<lparr>from_make_sale := Some 0\<rparr>"
                define k2 where "k2 = k1\<lparr>progress := Item_inserted sid (new_sale_item_id e)\<rparr>"
                define cs3 where "cs3 = fst (proceed c k1 (Item_inserted sid (new_sale_item_id e)) d2
                   (cs2\<lparr>user_variable := (user_variable cs2)(c := ?s2)\<rparr>))"
                have n2: "next_statement e c cs2 = (cs3, Proceeding)"
                  using stage_running[OF st2] stage_variable[OF st2] i2
                  by (simp add: next_statement_def db2 k1_def k0_def cs3_def proceed_def)
                have st3: "stage c cs cs3 k2 ?s2"
                  unfolding cs3_def k2_def
                  by (rule stage_proceed[OF stage_set_variable[OF st2]])
                     (simp add: rollback_def k1_def k0_def undo_item[OF i2] undo_sale[OF i1])
                have db3: "store cs3 = d2" by (simp add: cs3_def proceed_def)
                show ?thesis
                proof (cases "update_product_stock e d2 pid qq")
                  case (Inl err)
                  have "next_statement e c cs3 = exit_handler c k2 err cs3"
                    using stage_running[OF st3] Inl
                    by (simp add: next_statement_def db3 k2_def k1_def k0_def)
                  with stage_abort[OF st3 idle]
                  have "finish 4 e c cs3 = (cs\<lparr>user_variable := (user_variable cs)(c := ?s2)\<rparr>, Raised err)"
                    by (simp add: eval_nat_numeral)
                  with ca n1 n2 q pre p row enough i1 i2 Inl show ?thesis
                    by (simp add: body eval_nat_numeral)
                next
                  case (Inr d3)
                  note i3 = Inr
                  define k3 where "k3 = k2\<lparr>progress := Stock_updated sid (new_sale_item_id e)\<rparr>"
                  define cs4 where "cs4 = fst (proceed c k2 (Stock_updated sid (new_sale_item_id e)) d3 cs3)"
                  have n3: "next_statement e c cs3 = (cs4, Proceeding)"
                    using stage_running[OF st3] i3
                    by (simp add: next_statement_def db3 k2_def k1_def k0_def cs4_def proceed_def)
                  have u3: "rollback k3 d3 = ?db"
                    by (simp add: rollback_def k3_def k2_def k1_def k0_def undo_stock[OF i3]
                        undo_item[OF i2] undo_sale[OF i1])
                  have st4: "stage c cs cs4 k3 ?s2"
                    unfolding cs4_def k3_def
                    by (rule stage_proceed[OF st3]) (use u3 in \<open>simp add: k3_def\<close>)
                  have db4: "store cs4 = d3" by (simp add: cs4_def proceed_def)
                  show ?thesis
                  proof (cases "decimal_10_2 (price row * qq)")
                    case False
                    have "next_statement e c cs4 = exit_handler c k3 (Out_Of_Range ''v_total'') cs4"
                      using stage_running[OF st4] False
                      by (simp add: next_statement_def db4 k3_def k2_def k1_def k0_def)
                    with stage_abort[OF st4 idle]
                    have "finish 3 e c cs4 = (cs\<lparr>user_variable := (user_variable cs)(c := ?s2)\<rparr>,
                        Raised (Out_Of_Range ''v_total''))"
                      by (simp add: eval_nat_numeral)
                    with ca n1 n2 n3 q pre p row enough i1 i2 i3 False show ?thesis
                      by (simp add: body eval_nat_numeral)
                  next
                    case True
                    note rg = True
                    show ?thesis
                    proof (cases "update_sale_total e d3 sid (price row * qq)")
                      case (Inl err)
                      have "next_statement e c cs4 = exit_handler c k3 err cs4"
                        using stage_running[OF st4] rg Inl
                        by (simp add: next_statement_def db4 k3_def k2_def k1_def k0_def)
                      with stage_abort[OF st4 idle]
                      have "finish 3 e c cs4 = (cs\<lparr>user_variable := (user_variable cs)(c := ?s2)\<rparr>, Raised err)"
                        by (simp add: eval_nat_numeral)
                      with ca n1 n2 n3 q pre p row enough i1 i2 i3 rg Inl show ?thesis
                        by (simp add: body eval_nat_numeral)
                    next
                      case (Inr d4)
                      note i4 = Inr
                      define k4 where "k4 = k3\<lparr>progress := Total_updated sid (new_sale_item_id e)\<rparr>"
                      define cs5 where "cs5 = fst (proceed c k3 (Total_updated sid (new_sale_item_id e)) d4 cs4)"
                      have n4: "next_statement e c cs4 = (cs5, Proceeding)"
                        using stage_running[OF st4] rg i4
                        by (simp add: next_statement_def db4 k3_def k2_def k1_def k0_def cs5_def proceed_def)
                      have u4: "rollback k4 d4 = ?db"
                        using u3
                        by (simp add: rollback_def k4_def k3_def k2_def k1_def k0_def undo_total[OF i4])
                      have st5: "stage c cs cs5 k4 ?s2"
                        unfolding cs5_def k4_def
                        by (rule stage_proceed[OF st4]) (use u4 in \<open>simp add: k4_def\<close>)
                      have db5: "store cs5 = d4" by (simp add: cs5_def proceed_def)
                      show ?thesis
                      proof (cases "insert_payment e d4 sid ''CASH'' ''SUCCESS''")
                        case (Inl err)
                        have "next_statement e c cs5 = exit_handler c k4 err cs5"
                          using stage_running[OF st5] Inl
                          by (simp add: next_statement_def db5 k4_def k3_def k2_def k1_def k0_def)
                        with stage_abort[OF st5 idle]
                        have "finish 2 e c cs5 = (cs\<lparr>user_variable := (user_variable cs)(c := ?s2)\<rparr>, Raised err)"
                          by (simp add: eval_nat_numeral)
                        with ca n1 n2 n3 n4 q pre p row enough i1 i2 i3 rg i4 Inl show ?thesis
                          by (simp add: body eval_nat_numeral)
                      next
                        case (Inr d5)
                        note i5 = Inr
                        define k5 where "k5 = k4\<lparr>progress :=
                          Payment_inserted sid (new_sale_item_id e) (new_payment_id e)\<rparr>"
                        define cs6 where "cs6 = fst (proceed c k4
                          (Payment_inserted sid (new_sale_item_id e) (new_payment_id e)) d5 cs5)"
                        have n5: "next_statement e c cs5 = (cs6, Proceeding)"
                          using stage_running[OF st5] i5
                          by (simp add: next_statement_def db5 k4_def k3_def k2_def k1_def k0_def
                              cs6_def proceed_def)
                        have u5: "rollback k5 d5 = ?db"
                          using u4
                          by (simp add: rollback_def k5_def k4_def k3_def k2_def k1_def k0_def
                              undo_payment[OF i5])
                        have st6: "stage c cs cs6 k5 ?s2"
                          unfolding cs6_def k5_def
                          by (rule stage_proceed[OF st5]) (use u5 in \<open>simp add: k5_def\<close>)
                        have db6: "store cs6 = d5" by (simp add: cs6_def proceed_def)
                        show ?thesis
                        proof (cases "fails e Commit")
                          case True
                          have "next_statement e c cs6 = exit_handler c k5 (Server_Error Commit) cs6"
                            using stage_running[OF st6] True
                            by (simp add: next_statement_def k5_def k4_def k3_def k2_def k1_def k0_def)
                          with stage_abort[OF st6 idle]
                          have "finish 1 e c cs6 = (cs\<lparr>user_variable := (user_variable cs)(c := ?s2)\<rparr>,
                              Raised (Server_Error Commit))"
                            by simp
                          with ca n1 n2 n3 n4 n5 q pre p row enough i1 i2 i3 rg i4 i5 True
                          show ?thesis
                            by (simp add: body eval_nat_numeral)
                        next
                          case False
                          have "next_statement e c cs6 =
                             (cs6\<lparr>locks := release c (locks cs6), running := (running cs6)(c := None)\<rparr>,
                              Returned sid (price row * qq))"
                            using stage_running[OF st6] False
                            by (simp add: next_statement_def k5_def k4_def k3_def k2_def k1_def k0_def)
                          with stage_commit[OF st6 idle] db6
                          have "finish 1 e c cs6 =
                             (cs\<lparr>store := d5, user_variable := (user_variable cs)(c := ?s2)\<rparr>,
                              Returned sid (price row * qq))"
                            by simp
                          with ca n1 n2 n3 n4 n5 q pre p row enough i1 i2 i3 rg i4 i5 False
                          show ?thesis
                            by (simp add: body eval_nat_numeral)
                        qed
                      qed
                    qed
                  qed
                qed
              qed
            qed
          qed
        qed
      qed
    qed
  qed
qed

section \<open>What a rollback takes out, among concurrent calls\<close>

text \<open>
  The rollbacks of two transactions commute, so what other connections read can be
  computed with the transaction of a given connection rolled back first. Every
  statement of a running call extends what its rollback takes out by exactly what the
  statement has written: rolling back after the statement gives the rows that rolling
  back before it gives.
\<close>

lemma delete_sale_commute:
  "delete_sale a (delete_sale b db) = delete_sale b (delete_sale a db)"
  by (simp add: delete_sale_def conj_commute)

lemma delete_sale_item_commute:
  "delete_sale_item a (delete_sale_item b db) = delete_sale_item b (delete_sale_item a db)"
  by (simp add: delete_sale_item_def conj_commute)

lemma delete_payment_commute:
  "delete_payment a (delete_payment b db) = delete_payment b (delete_payment a db)"
  by (simp add: delete_payment_def conj_commute)

lemma restore_stock_commute:
  "restore_stock p a (restore_stock p' b db) = restore_stock p' b (restore_stock p a db)"
  by (simp add: restore_stock_def)

lemma undo_tables:
  "delete_sale_item i (delete_sale a db) = delete_sale a (delete_sale_item i db)"
  "restore_stock p n (delete_sale a db) = delete_sale a (restore_stock p n db)"
  "delete_payment y (delete_sale a db) = delete_sale a (delete_payment y db)"
  "restore_stock p n (delete_sale_item i db) = delete_sale_item i (restore_stock p n db)"
  "delete_payment y (delete_sale_item i db) = delete_sale_item i (delete_payment y db)"
  "delete_payment y (restore_stock p n db) = restore_stock p n (delete_payment y db)"
  by (simp_all add: delete_sale_def delete_sale_item_def delete_payment_def restore_stock_def)

lemma undo_commute:
  "undo pr pid q (undo pr' pid' q' db) = undo pr' pid' q' (undo pr pid q db)"
  by (cases pr; cases pr')
     (simp_all add: undo_tables delete_sale_commute delete_sale_item_commute
        delete_payment_commute restore_stock_commute)

lemma rollback_commute: "rollback k (rollback k' db) = rollback k' (rollback k db)"
  by (simp add: rollback_def undo_commute)

lemma pending_commute: "pending cs x (pending cs' y db) = pending cs' y (pending cs x db)"
  by (simp add: pending_def rollback_commute split: option.splits)

lemma foldr_pending_out:
  "foldr (pending cs) xs (pending cs' c db) = pending cs' c (foldr (pending cs) xs db)"
  by (induction xs) (simp_all add: pending_commute)

lemma foldr_pending_same:
  "\<forall>x\<in>set xs. running cs' x = running cs x \<Longrightarrow>
     foldr (pending cs') xs db = foldr (pending cs) xs db"
  by (induction xs) (simp_all add: pending_def)

lemma foldr_pending_pull:
  assumes "distinct xs" and "c \<in> set xs" and "\<forall>x. x \<noteq> c \<longrightarrow> running cs' x = running cs x"
  shows "foldr (pending cs') xs db = foldr (pending cs) (removeAll c xs) (pending cs' c db)"
  using assms(1,2)
proof (induction xs)
  case Nil
  then show ?case by simp
next
  case (Cons x xs)
  show ?case
  proof (cases "x = c")
    case True
    with Cons.prems have "c \<notin> set xs" by simp
    then have "foldr (pending cs') xs db = foldr (pending cs) xs db"
      using assms(3) by (intro foldr_pending_same) auto
    with True \<open>c \<notin> set xs\<close> show ?thesis by (simp add: foldr_pending_out)
  next
    case False
    with Cons.prems have "distinct xs" "c \<in> set xs" by auto
    moreover from False assms(3) have "pending cs' x = pending cs x"
      by (simp add: pending_def fun_eq_iff)
    ultimately show ?thesis using Cons.IH False by simp
  qed
qed

lemma committed_pending: "committed cs = foldr (pending cs) (remdups (connections cs)) (store cs)"
  by (simp add: committed_def pending_def[abs_def])

lemma committed_step:
  assumes "c \<in> set (connections cs)" and "connections cs' = connections cs"
    and "\<forall>x. x \<noteq> c \<longrightarrow> running cs' x = running cs x"
    and "pending cs' c (store cs') = pending cs c (store cs)"
  shows "committed cs' = committed cs"
proof -
  let ?xs = "remdups (connections cs)"
  have d: "distinct ?xs" and c: "c \<in> set ?xs" using assms(1) by simp_all
  have "committed cs' = foldr (pending cs) (removeAll c ?xs) (pending cs' c (store cs'))"
    using foldr_pending_pull[OF d c assms(3)] by (simp add: committed_pending assms(2))
  also have "\<dots> = foldr (pending cs) (removeAll c ?xs) (pending cs c (store cs))"
    by (simp add: assms(4))
  also have "\<dots> = committed cs"
    using foldr_pending_pull[OF d c, of cs cs "store cs"] by (simp add: committed_pending)
  finally show ?thesis .
qed

lemma pending_idle: "running cs c = None \<Longrightarrow> pending cs c db = db"
  by (simp add: pending_def)

lemma pending_running: "running cs c = Some k \<Longrightarrow> pending cs c db = rollback k db"
  by (simp add: pending_def)

lemma committed_quiescent: "\<forall>x. running cs x = None \<Longrightarrow> committed cs = store cs"
proof -
  assume q: "\<forall>x. running cs x = None"
  have "foldr (pending cs) xs db = db" for xs db
    by (induction xs) (simp_all add: pending_idle q)
  then show ?thesis by (simp add: committed_pending)
qed

lemma exit_handler_pending:
  "exit_handler c k err cs = (cs', r) \<Longrightarrow>
     connections cs' = connections cs \<and> (\<forall>x. x \<noteq> c \<longrightarrow> running cs' x = running cs x) \<and>
     pending cs' c (store cs') = rollback k (store cs) \<and> r = Raised err \<and>
     store cs' = rollback k (store cs) \<and> running cs' c = None \<and> (\<forall>x. locks cs' x \<noteq> Some c)"
  by (auto simp: exit_handler_def pending_def release_def split: if_splits)

lemma proceed_pending:
  "proceed c k pr db cs = (cs', r) \<Longrightarrow> rollback (k\<lparr>progress := pr\<rparr>) db = d0 \<Longrightarrow>
     connections cs' = connections cs \<and> (\<forall>x. x \<noteq> c \<longrightarrow> running cs' x = running cs x) \<and>
     pending cs' c (store cs') = d0 \<and> r = Proceeding"
  by (auto simp: proceed_def pending_def)

lemma next_statement_pending:
  assumes run: "running cs c = Some k" and nx: "next_statement e c cs = (cs', r)"
  shows "connections cs' = connections cs \<and> (\<forall>x. x \<noteq> c \<longrightarrow> running cs' x = running cs x) \<and>
         (r = Proceeding \<or> (\<exists>err. r = Raised err) \<longrightarrow>
            pending cs' c (store cs') = rollback k (store cs)) \<and>
         ((\<exists>err. r = Raised err) \<longrightarrow>
            store cs' = rollback k (store cs) \<and> running cs' c = None \<and>
            (\<forall>x. locks cs' x \<noteq> Some c))"
proof (cases "progress k")
  case Selected
  show ?thesis
  proof (cases "insert_sale e (store cs) (arg_customer k) (nullif (arg_salesperson k) 0)")
    case (Inl err)
    with run nx Selected have "exit_handler c k err cs = (cs', r)"
      by (simp add: next_statement_def)
    from exit_handler_pending[OF this, simplified] show ?thesis by blast
  next
    case (Inr res)
    obtain d sid where res: "res = (d, sid)" by (cases res)
    from undo_sale[OF Inr[unfolded res]] Selected
    have u: "rollback (k\<lparr>progress := Sale_inserted sid\<rparr>) d = rollback k (store cs)"
      by (simp add: rollback_def)
    from run nx Selected Inr res
    have "proceed c k (Sale_inserted sid) d (cs\<lparr>locks := (locks cs)(Sale_row sid \<mapsto> c)\<rparr>) = (cs', r)"
      by (simp add: next_statement_def)
    from proceed_pending[OF this u] show ?thesis by simp
  qed
next
  case (Sale_inserted sid)
  let ?s1 = "(user_variable cs c)\<lparr>from_make_sale := Some 1\<rparr>"
  show ?thesis
  proof (cases "insert_sale_item e ?s1 (store cs) sid (arg_product k) (arg_quantity k) (var_price k)")
    case (Inl err)
    with run nx Sale_inserted
    have "exit_handler c k err
            (cs\<lparr>user_variable := (user_variable cs)(c := ?s1)\<rparr>) = (cs', r)"
      by (simp add: next_statement_def)
    from exit_handler_pending[OF this, simplified] show ?thesis by blast
  next
    case (Inr d)
    from undo_item[OF Inr] Sale_inserted
    have u: "rollback (k\<lparr>progress := Item_inserted sid (new_sale_item_id e)\<rparr>) d =
             rollback k (store cs)"
      by (simp add: rollback_def)
    from run nx Sale_inserted Inr
    have "proceed c k (Item_inserted sid (new_sale_item_id e)) d
            (cs\<lparr>user_variable := (user_variable cs)
                  (c := (user_variable cs c)\<lparr>from_make_sale := Some 0\<rparr>)\<rparr>) = (cs', r)"
      by (simp add: next_statement_def)
    from proceed_pending[OF this u] show ?thesis by simp
  qed
next
  case (Item_inserted sid item)
  show ?thesis
  proof (cases "update_product_stock e (store cs) (arg_product k) (arg_quantity k)")
    case (Inl err)
    with run nx Item_inserted have "exit_handler c k err cs = (cs', r)"
      by (simp add: next_statement_def)
    from exit_handler_pending[OF this, simplified] show ?thesis by blast
  next
    case (Inr d)
    from undo_stock[OF Inr] Item_inserted
    have u: "rollback (k\<lparr>progress := Stock_updated sid item\<rparr>) d = rollback k (store cs)"
      by (simp add: rollback_def)
    from run nx Item_inserted Inr
    have "proceed c k (Stock_updated sid item) d cs = (cs', r)"
      by (simp add: next_statement_def)
    from proceed_pending[OF this u] show ?thesis by simp
  qed
next
  case (Stock_updated sid item)
  show ?thesis
  proof (cases "decimal_10_2 (var_price k * arg_quantity k)")
    case False
    with run nx Stock_updated have "exit_handler c k (Out_Of_Range ''v_total'') cs = (cs', r)"
      by (simp add: next_statement_def)
    from exit_handler_pending[OF this, simplified] show ?thesis by blast
  next
    case True
    show ?thesis
    proof (cases "update_sale_total e (store cs) sid (var_price k * arg_quantity k)")
      case (Inl err)
      with run nx Stock_updated True have "exit_handler c k err cs = (cs', r)"
        by (simp add: next_statement_def)
      from exit_handler_pending[OF this, simplified] show ?thesis by blast
    next
      case (Inr d)
      from undo_total[OF Inr, of item "arg_product k" "arg_quantity k"] Stock_updated
      have u: "rollback (k\<lparr>progress := Total_updated sid item\<rparr>) d = rollback k (store cs)"
        by (simp add: rollback_def)
      from run nx Stock_updated True Inr
      have "proceed c k (Total_updated sid item) d cs = (cs', r)"
        by (simp add: next_statement_def)
      from proceed_pending[OF this u] show ?thesis by simp
    qed
  qed
next
  case (Total_updated sid item)
  show ?thesis
  proof (cases "insert_payment e (store cs) sid ''CASH'' ''SUCCESS''")
    case (Inl err)
    with run nx Total_updated have "exit_handler c k err cs = (cs', r)"
      by (simp add: next_statement_def)
    from exit_handler_pending[OF this, simplified] show ?thesis by blast
  next
    case (Inr d)
    from undo_payment[OF Inr] Total_updated
    have u: "rollback (k\<lparr>progress := Payment_inserted sid item (new_payment_id e)\<rparr>) d =
             rollback k (store cs)"
      by (simp add: rollback_def)
    from run nx Total_updated Inr
    have "proceed c k (Payment_inserted sid item (new_payment_id e)) d cs = (cs', r)"
      by (simp add: next_statement_def)
    from proceed_pending[OF this u] show ?thesis by simp
  qed
next
  case (Payment_inserted sid item pay)
  show ?thesis
  proof (cases "fails e Commit")
    case True
    with run nx Payment_inserted have "exit_handler c k (Server_Error Commit) cs = (cs', r)"
      by (simp add: next_statement_def)
    from exit_handler_pending[OF this, simplified] show ?thesis by blast
  next
    case False
    with run nx Payment_inserted show ?thesis
      by (auto simp: next_statement_def)
  qed
qed

lemma next_statement_idle: "running cs c = None \<Longrightarrow> next_statement e c cs = (cs, Waiting)"
  by (simp add: next_statement_def)

lemma next_statement_committed:
  assumes cin: "c \<in> set (connections cs)" and nx: "next_statement e c cs = (cs', r)"
    and r: "r = Proceeding \<or> (\<exists>err. r = Raised err)"
  shows "committed cs' = committed cs \<and> connections cs' = connections cs \<and>
         (\<forall>x. x \<noteq> c \<longrightarrow> running cs' x = running cs x)"
proof (cases "running cs c")
  case None
  with nx r show ?thesis by (auto simp: next_statement_idle)
next
  case (Some k)
  from next_statement_pending[OF Some nx] r
  have 1: "connections cs' = connections cs"
    and 2: "\<forall>x. x \<noteq> c \<longrightarrow> running cs' x = running cs x"
    and 3: "pending cs' c (store cs') = rollback k (store cs)" by blast+
  from 3 Some have "pending cs' c (store cs') = pending cs c (store cs)"
    by (simp add: pending_running)
  from committed_step[OF cin 1 2 this] 1 2 show ?thesis by simp
qed

lemma begin_make_sale_committed:
  assumes "begin_make_sale e c cu p q sp cs = (cs', r)"
  shows "store cs' = store cs \<and> connections cs' = connections cs \<and>
         (\<forall>x. x \<noteq> c \<longrightarrow> running cs' x = running cs x) \<and>
         (r \<noteq> Proceeding \<longrightarrow> cs' = cs) \<and> committed cs' = committed cs \<and>
         (r = Proceeding \<longrightarrow> c \<in> set (connections cs))"
proof (cases "r = Proceeding")
  case False
  with assms have "cs' = cs"
    by (auto simp: begin_make_sale_def split: option.splits if_splits)
  with False show ?thesis by simp
next
  case True
  with assms have cin: "c \<in> set (connections cs)" and idle: "running cs c = None"
    and st: "store cs' = store cs" and cn: "connections cs' = connections cs"
    and 2: "\<forall>x. x \<noteq> c \<longrightarrow> running cs' x = running cs x"
    and pe: "pending cs' c (store cs') = store cs"
    by (auto simp: begin_make_sale_def pending_def rollback_def split: option.splits if_splits)
  from pe idle have "pending cs' c (store cs') = pending cs c (store cs)"
    by (simp add: pending_idle)
  from committed_step[OF cin cn 2 this] st cn 2 True cin show ?thesis by simp
qed

lemma finish_raised:
  assumes "c \<in> set (connections cs)" and "finish n e c cs = (cs', Raised err)"
  shows "committed cs' = committed cs \<and> connections cs' = connections cs \<and>
         (\<forall>x. x \<noteq> c \<longrightarrow> running cs' x = running cs x) \<and> running cs' c = None \<and>
         (\<forall>x. locks cs' x \<noteq> Some c)"
  using assms
proof (induction n arbitrary: cs)
  case 0
  then show ?case by simp
next
  case (Suc n)
  obtain cs1 r where nx: "next_statement e c cs = (cs1, r)" by (cases "next_statement e c cs")
  show ?case
  proof (cases "r = Proceeding")
    case True
    from next_statement_committed[OF Suc.prems(1) nx] True
    have 1: "committed cs1 = committed cs" "connections cs1 = connections cs"
      "\<forall>x. x \<noteq> c \<longrightarrow> running cs1 x = running cs x" by simp_all
    from Suc.prems(2) nx True have "finish n e c cs1 = (cs', Raised err)" by simp
    moreover from 1 Suc.prems(1) have "c \<in> set (connections cs1)" by simp
    ultimately have "committed cs' = committed cs1 \<and> connections cs' = connections cs1 \<and>
         (\<forall>x. x \<noteq> c \<longrightarrow> running cs' x = running cs1 x) \<and> running cs' c = None \<and>
         (\<forall>x. locks cs' x \<noteq> Some c)" by (rule Suc.IH[rotated])
    with 1 show ?thesis by simp
  next
    case False
    with Suc.prems(2) nx have eq: "cs1 = cs'" "r = Raised err"
      by (cases r; simp)+
    from next_statement_committed[OF Suc.prems(1) nx] eq
    have 1: "committed cs' = committed cs" "connections cs' = connections cs"
      "\<forall>x. x \<noteq> c \<longrightarrow> running cs' x = running cs x" by simp_all
    have "running cs c \<noteq> None"
      using nx eq by (cases "running cs c") (simp_all add: next_statement_idle)
    then obtain k where "running cs c = Some k" by auto
    from next_statement_pending[OF this nx] eq 1 show ?thesis by simp
  qed
qed

lemma call_alone_raised:
  assumes "call_alone e c cu p q sp cs = (cs', Raised err)"
  shows "committed cs' = committed cs \<and> connections cs' = connections cs \<and>
         (\<forall>x. x \<noteq> c \<longrightarrow> running cs' x = running cs x) \<and>
         (running cs c = None \<longrightarrow> running cs' c = None \<and> (\<forall>x. locks cs x \<noteq> Some c \<longrightarrow> locks cs' x \<noteq> Some c))"
proof -
  obtain cs0 r where b: "begin_make_sale e c cu p q sp cs = (cs0, r)"
    by (cases "begin_make_sale e c cu p q sp cs")
  note b0 = begin_make_sale_committed[OF b]
  show ?thesis
  proof (cases "r = Proceeding")
    case True
    with assms b have "finish 6 e c cs0 = (cs', Raised err)" by (simp add: call_alone_def)
    moreover from b0 True have "c \<in> set (connections cs0)" by simp
    ultimately have "committed cs' = committed cs0 \<and> connections cs' = connections cs0 \<and>
         (\<forall>x. x \<noteq> c \<longrightarrow> running cs' x = running cs0 x) \<and> running cs' c = None \<and>
         (\<forall>x. locks cs' x \<noteq> Some c)" by (rule finish_raised[rotated])
    with b0 show ?thesis by simp
  next
    case False
    with assms b have "cs0 = cs'" by (cases r) (simp_all add: call_alone_def)
    with b0 False show ?thesis by auto
  qed
qed

lemmas undo_defs = delete_sale_def delete_sale_item_def delete_payment_def restore_stock_def

section \<open>The claims about one call\<close>

text \<open>
  C2. A call of make_sale that fails, whatever the error (the signal for the quantity,
  for the item or for the stock, a violated constraint, an error the server raises at
  any statement up to \<^verbatim>\<open>COMMIT\<close>), leaves the database as it was before the call: no
  row of Sale, Sale_Item or Payment is added and no stock has changed. The call is taken
  statement by statement, its rows in the store from the statement that writes them
  until the \<^verbatim>\<open>ROLLBACK\<close> of the exit handler takes them out again. For a connection \<open>c\<close>
  of the server:
  \<^item> when nothing else runs, a call that raises an error ends with the rows of before
    the call in the store, with no call running and no lock held; every error of
    \<open>make_sale\<close> is the error of such a call, and the database \<open>make_sale\<close> gives
    back with it is the one of before the call;
  \<^item> among concurrent calls, the statement that raises the error leaves the store
    without anything the call had written and the connection without a running call
    and without a lock, and what other connections read is as before;
  \<^item> a statement after which the call goes on changes nothing of what other
    connections read, and neither does the first step of a call, which writes nothing;
    so no row of a call that fails is ever read by another connection.

  (The user variable of the connection is not part of the database; C10 is about it.
  Nor are the keys that \<^verbatim>\<open>AUTO_INCREMENT\<close> has handed out to the rows that were rolled
  back: they are not given back, and they are no rows.)
\<close>

theorem make_sale_failure_atomic:
  assumes cin: "c \<in> set (connections cs)"
  shows
    "((\<forall>x. running cs x = None) \<and> locks cs = (\<lambda>_. None) \<longrightarrow>
        (call_alone e c cu p q sp cs = (cs', Raised err) \<longrightarrow>
           store cs' = store cs \<and> committed cs' = store cs \<and>
           running cs' = running cs \<and> locks cs' = locks cs) \<and>
        (make_sale e (user_variable cs c) (store cs) cu p q sp = (s', db', Inl err) \<longrightarrow>
           call_alone e c cu p q sp cs =
             (cs\<lparr>user_variable := (user_variable cs)(c := s')\<rparr>, Raised err) \<and>
           db' = store cs)) \<and>
     (next_statement e c cs = (cs'', Raised err) \<longrightarrow>
        (\<exists>k. running cs c = Some k \<and> store cs'' = rollback k (store cs)) \<and>
        running cs'' c = None \<and> (\<forall>x. locks cs'' x \<noteq> Some c) \<and>
        committed cs'' = committed cs) \<and>
     (next_statement e c cs = (cs'', Proceeding) \<longrightarrow> committed cs'' = committed cs) \<and>
     (begin_make_sale e c cu p q sp cs = (cs'', r) \<longrightarrow>
        store cs'' = store cs \<and> committed cs'' = committed cs \<and> (r \<noteq> Proceeding \<longrightarrow> cs'' = cs))"
proof -
  have alone: "store cs2 = store cs \<and> committed cs2 = store cs \<and>
      running cs2 = running cs \<and> locks cs2 = locks cs"
    if quiet: "\<forall>x. running cs x = None" and nl: "locks cs = (\<lambda>_. None)"
      and ca: "call_alone e c cu p q sp cs = (cs2, Raised err)" for cs2
  proof -
    from quiet have idle: "running cs c = None" by simp
    have co: "committed cs2 = committed cs"
      using call_alone_raised[OF ca] by simp
    have "running cs2 x = running cs x" for x
      using call_alone_raised[OF ca] idle by (cases "x = c") simp_all
    then have ru: "\<forall>x. running cs2 x = running cs x" by simp
    from ru quiet have "\<forall>x. running cs2 x = None" by simp
    then have "committed cs2 = store cs2" by (rule committed_quiescent)
    with co committed_quiescent[OF quiet] have st: "store cs2 = store cs" by simp
    from call_alone_is_make_sale[OF cin idle nl, of e cu p q sp] ca
    have "locks cs2 = locks cs" by (auto split: prod.splits)
    with st co committed_quiescent[OF quiet] ru show ?thesis by (simp add: fun_eq_iff)
  qed
  have big: "call_alone e c cu p q sp cs =
        (cs\<lparr>user_variable := (user_variable cs)(c := s')\<rparr>, Raised err) \<and> db' = store cs"
    if quiet: "\<forall>x. running cs x = None" and nl: "locks cs = (\<lambda>_. None)"
      and ms: "make_sale e (user_variable cs c) (store cs) cu p q sp = (s', db', Inl err)"
  proof -
    from quiet have idle: "running cs c = None" by simp
    from call_alone_is_make_sale[OF cin idle nl, of e cu p q sp] ms
    have ca: "call_alone e c cu p q sp cs =
        (cs\<lparr>store := db', user_variable := (user_variable cs)(c := s')\<rparr>, Raised err)"
      by (simp add: reply_of_def)
    from alone[OF quiet nl ca] have "db' = store cs" by simp
    with ca show ?thesis by simp
  qed
  have raised: "(\<exists>k. running cs c = Some k \<and> store cs'' = rollback k (store cs)) \<and>
        running cs'' c = None \<and> (\<forall>x. locks cs'' x \<noteq> Some c) \<and> committed cs'' = committed cs"
    if nx: "next_statement e c cs = (cs'', Raised err)"
  proof -
    from nx obtain k where k: "running cs c = Some k"
      by (cases "running cs c") (simp_all add: next_statement_idle)
    from next_statement_pending[OF k nx] next_statement_committed[OF cin nx] k
    show ?thesis by simp
  qed
  have going: "committed cs'' = committed cs" if "next_statement e c cs = (cs'', Proceeding)"
    using next_statement_committed[OF cin that] by simp
  have start: "store cs'' = store cs \<and> committed cs'' = committed cs \<and> (r \<noteq> Proceeding \<longrightarrow> cs'' = cs)"
    if "begin_make_sale e c cu p q sp cs = (cs'', r)"
    using begin_make_sale_committed[OF that] by simp
  from alone big raised going start show ?thesis by blast
qed

theorem make_sale_failure_atomic_witness:
  "snd (call_alone scenario_failing 0 (Some 1) (Some 1) (Some 2) (Some 0) scenario_server) =
     Raised (Server_Error Insert_Payment) \<and>
   store (fst (call_alone scenario_failing 0 (Some 1) (Some 1) (Some 2) (Some 0)
     scenario_server)) = scenario_db \<and>
   snd (snd (make_sale scenario_failing fresh_session scenario_db
     (Some 1) (Some 1) (Some 2) (Some 0))) = Inl (Server_Error Insert_Payment) \<and>
   fst (snd (make_sale scenario_failing fresh_session scenario_db
     (Some 1) (Some 1) (Some 2) (Some 0))) = scenario_db \<and>
   map stock (Product (store scenario_half_done)) = [28, 5] \<and>
   map sale_id (Sale (store scenario_half_done)) = [1] \<and>
   map sale_item_id (Sale_Item (store scenario_half_done)) = [1] \<and>
   committed scenario_half_done = scenario_db \<and>
   snd (next_statement scenario_failing 0 scenario_half_done) =
     Raised (Server_Error Insert_Payment) \<and>
   store (fst (next_statement scenario_failing 0 scenario_half_done)) = scenario_db \<and>
   committed (fst (next_statement scenario_failing 0 scenario_half_done)) = scenario_db"
proof -
  let ?e = scenario_failing and ?err = "Server_Error Insert_Payment"
  let ?call = "call_alone ?e 0 (Some 1) (Some 1) (Some 2) (Some 0) scenario_server"
  let ?sale = "make_sale ?e fresh_session scenario_db (Some 1) (Some 1) (Some 2) (Some 0)"
  let ?next = "next_statement ?e 0 scenario_half_done"
  note eval = interleave_def scenario_half_done_def scenario_server_def scenario_failing_def
    step_defs stmt_defs scenario_defs undo_defs
  have c: "0 \<in> set (connections scenario_server)"
    and quiet: "\<forall>x. running scenario_server x = None"
    and nl: "locks scenario_server = (\<lambda>_. None)"
    and uv: "user_variable scenario_server 0 = fresh_session"
    and st: "store scenario_server = scenario_db"
    by (simp_all add: scenario_server_def)
  have r: "snd ?call = Raised ?err"
    by (simp add: call_alone_def eval_nat_numeral eval)
  then have ca: "?call = (fst ?call, Raised ?err)" by (simp add: prod_eq_iff)
  have "snd (snd ?sale) = Inl ?err" by (simp add: eval)
  then have ms: "make_sale ?e (user_variable scenario_server 0) (store scenario_server)
      (Some 1) (Some 1) (Some 2) (Some 0) = (fst ?sale, fst (snd ?sale), Inl ?err)"
    by (simp add: prod_eq_iff uv st)
  from make_sale_failure_atomic[OF c, where e = ?e and cu = "Some 1" and p = "Some 1"
      and q = "Some 2" and sp = "Some 0" and cs' = "fst ?call" and err = ?err
      and s' = "fst ?sale" and db' = "fst (snd ?sale)"] quiet nl ca ms
  have "store (fst ?call) = store scenario_server \<and> fst (snd ?sale) = store scenario_server"
    by blast
  then have a: "store (fst ?call) = scenario_db" and b: "fst (snd ?sale) = scenario_db"
    by (simp_all add: st)
  have c': "0 \<in> set (connections scenario_half_done)" by (simp add: eval)
  have h: "map stock (Product (store scenario_half_done)) = [28, 5]"
      "map sale_id (Sale (store scenario_half_done)) = [1]"
      "map sale_item_id (Sale_Item (store scenario_half_done)) = [1]"
    by (simp_all add: eval)
  have co: "committed scenario_half_done = scenario_db"
    by (simp add: committed_def eval)
  have rn: "snd ?next = Raised ?err" by (simp add: eval)
  then have nx: "?next = (fst ?next, Raised ?err)" by (simp add: prod_eq_iff)
  have sn: "store (fst ?next) = scenario_db" by (simp add: eval)
  from make_sale_failure_atomic[OF c', where e = ?e and cs'' = "fst ?next" and err = ?err] nx
  have "committed (fst ?next) = committed scenario_half_done" by blast
  with co have "committed (fst ?next) = scenario_db" by simp
  with r \<open>snd (snd ?sale) = Inl ?err\<close> a b h co rn sn show ?thesis by simp
qed

text \<open>
  C3. After a successful make_sale for item \<open>pid\<close> and quantity \<open>q\<close>, on a connection
  in any state, the stock of \<open>pid\<close> is its stock before minus \<open>q\<close> (one decrement, the
  trigger adds none), every other row of Product is as before, and no row of Product is
  added or removed.
\<close>

theorem make_sale_conservation:
  assumes "make_sale e s db c (Some pid) (Some q) sp = (s', db', Inr out)"
  shows "(\<exists>row. select_product db pid = Some row \<and>
              map_option stock (select_product db' pid) = Some (stock row - q)) \<and>
         (\<forall>i. i \<noteq> pid \<longrightarrow> select_product db' i = select_product db i) \<and>
         map product_id (Product db') = map product_id (Product db)"
proof -
  obtain sid tot where "out = (sid, tot)" by (cases out)
  with assms have "make_sale e s db c (Some pid) (Some q) sp = (s', db', Inr (sid, tot))" by simp
  from make_sale_success[OF this] obtain row where
    row: "select_product db pid = Some row" and
    P: "Product db' = map (\<lambda>r. if product_id r = pid then r\<lparr>stock := stock r - q\<rparr> else r) (Product db)"
    by auto
  from row have k: "product_id row = pid" by (auto simp: select_product_def dest: find_key)
  have 1: "map_option stock (select_product db' pid) = Some (stock row - q)"
    using row k by (simp add: select_product_def P find_update_stock)
  have 2: "\<forall>i. i \<noteq> pid \<longrightarrow> select_product db' i = select_product db i"
  proof (intro allI impI)
    fix i assume "i \<noteq> pid"
    then show "select_product db' i = select_product db i"
      by (cases "find (\<lambda>r. product_id r = i) (Product db)")
         (auto simp: select_product_def P find_update_stock dest: find_key)
  qed
  have 3: "map product_id (Product db') = map product_id (Product db)"
    by (simp add: P ids_update_stock)
  from row 1 2 3 show ?thesis by (intro conjI exI[of _ row]) simp_all
qed

theorem make_sale_conservation_witness:
  "map_option stock (select_product (fst (snd (make_sale scenario_env fresh_session scenario_db (Some 1) (Some 1) (Some 2) (Some 0)))) 1) = Some 28
   \<and> map_option stock (select_product (fst (snd (make_sale scenario_env fresh_session scenario_db (Some 1) (Some 1) (Some 2) (Some 0)))) 2) = Some 5"
proof -
  have "\<exists>s' db'. make_sale scenario_env fresh_session scenario_db (Some 1) (Some 1) (Some 2) (Some 0) = (s', db', Inr (1, 25998))"
    by (simp add: stmt_defs scenario_defs)
  then obtain s' db' where r: "make_sale scenario_env fresh_session scenario_db (Some 1) (Some 1) (Some 2) (Some 0) = (s', db', Inr (1, 25998))"
    by blast
  have a: "select_product scenario_db 1 = Some \<lparr>product_id = 1, name = ''Item one'', category = ''Phone'', price = 12999,
           stock = 30, description = None\<rparr>"
    by (simp add: select_product_def scenario_defs)
  have b: "map_option stock (select_product scenario_db 2) = Some 5"
    by (simp add: select_product_def scenario_defs)
  from make_sale_conservation[OF r] a b
  have "map_option stock (select_product db' 1) = Some 28 \<and> map_option stock (select_product db' 2) = Some 5"
    by auto
  with r show ?thesis by simp
qed

text \<open>
  C4. With a valid quantity and a \<^verbatim>\<open>SELECT ... FOR UPDATE\<close> that the server carries out,
  make_sale tests the row it has read and locked: no such row (or a \<^verbatim>\<open>NULL\<close> key) ends
  the call with the signal "Invalid product_id", a stock below the quantity with
  "Insufficient stock". In both cases the handler rolls back: the database, and with it
  every stock and the table Sale, is as before the call, and the session is untouched.
  Among concurrent connections the first step of the call waits while another
  transaction holds the row; once the row is free it makes the two tests, and when one
  of them fails the server is left exactly as it was: no lock is kept and no call is
  running on the connection. The witness is scenario 2 of the spec (stock 5, quantity
  6) and scenario 5 (item 999999).
\<close>

theorem make_sale_recheck_under_lock:
  assumes "0 < q" and "\<not> fails e Select_Product"
  shows "make_sale e s db c None (Some q) sp = (s, db, Inl (Signal ''Invalid product_id'')) \<and>
         (select_product db pid = None \<longrightarrow>
            make_sale e s db c (Some pid) (Some q) sp = (s, db, Inl (Signal ''Invalid product_id''))) \<and>
         (\<forall>row. select_product db pid = Some row \<and> stock row < q \<longrightarrow>
            make_sale e s db c (Some pid) (Some q) sp = (s, db, Inl (Signal ''Insufficient stock''))) \<and>
         (cn \<in> set (connections cs) \<and> running cs cn = None \<longrightarrow>
            (locks cs (Product_row pid) \<noteq> None \<longrightarrow>
               begin_make_sale e cn c (Some pid) (Some q) sp cs = (cs, Waiting)) \<and>
            (locks cs (Product_row pid) = None \<and> select_product (store cs) pid = None \<longrightarrow>
               begin_make_sale e cn c (Some pid) (Some q) sp cs =
                 (cs, Raised (Signal ''Invalid product_id''))) \<and>
            (\<forall>row. locks cs (Product_row pid) = None \<and>
                   select_product (store cs) pid = Some row \<and> stock row < q \<longrightarrow>
               begin_make_sale e cn c (Some pid) (Some q) sp cs =
                 (cs, Raised (Signal ''Insufficient stock''))))"
  using assms by (simp add: make_sale_def make_sale_body_def begin_make_sale_def)

theorem make_sale_recheck_under_lock_witness:
  "make_sale scenario_env fresh_session scenario_db (Some 1) (Some 2) (Some 6) (Some 0) =
     (fresh_session, scenario_db, Inl (Signal ''Insufficient stock'')) \<and>
   make_sale scenario_env fresh_session scenario_db (Some 1) (Some 999999) (Some 1) (Some 0) =
     (fresh_session, scenario_db, Inl (Signal ''Invalid product_id'')) \<and>
   map_option stock (select_product scenario_db 2) = Some 5 \<and> Sale scenario_db = [] \<and>
   begin_make_sale scenario_env 1 (Some 1) (Some 2) (Some 6) (Some 0) scenario_server =
     (scenario_server, Raised (Signal ''Insufficient stock''))"
proof -
  have q: "(0::int) < 6" "(0::int) < 1" by simp_all
  have f: "\<not> fails scenario_env Select_Product" by (simp add: scenario_defs)
  have a: "select_product scenario_db 2 = Some \<lparr>product_id = 2, name = ''Item two'',
     category = ''Audio'', price = 149900, stock = 5, description = None\<rparr>"
    by (simp add: select_product_def scenario_defs)
  have b: "select_product scenario_db 999999 = None"
    by (simp add: select_product_def scenario_defs)
  have c: "1 \<in> set (connections scenario_server)" "running scenario_server 1 = None"
    "locks scenario_server (Product_row 2) = None" "store scenario_server = scenario_db"
    by (simp_all add: scenario_server_def)
  note t6 = make_sale_recheck_under_lock[OF q(1) f, where s = fresh_session and db = scenario_db
      and c = "Some 1" and sp = "Some 0" and pid = 2 and cn = 1 and cs = scenario_server]
  note t1 = make_sale_recheck_under_lock[OF q(2) f, where s = fresh_session and db = scenario_db
      and c = "Some 1" and sp = "Some 0" and pid = 999999 and cn = 1 and cs = scenario_server]
  from t6 a
  have 1: "make_sale scenario_env fresh_session scenario_db (Some 1) (Some 2) (Some 6) (Some 0) =
     (fresh_session, scenario_db, Inl (Signal ''Insufficient stock''))" by simp
  from t1 b
  have 2: "make_sale scenario_env fresh_session scenario_db (Some 1) (Some 999999) (Some 1) (Some 0) =
     (fresh_session, scenario_db, Inl (Signal ''Invalid product_id''))" by simp
  from t6 a c
  have 3: "begin_make_sale scenario_env 1 (Some 1) (Some 2) (Some 6) (Some 0) scenario_server =
     (scenario_server, Raised (Signal ''Insufficient stock''))" by simp
  from 1 2 3 a show ?thesis by (simp add: scenario_db_def)
qed

text \<open>
  C5. A successful make_sale returns and stores as \<open>total_amount\<close> of the new sale the
  price of the item, as read by the \<^verbatim>\<open>SELECT ... FOR UPDATE\<close>, times the quantity; the
  new sale is the only row of Sale with the returned key. The witness is scenario 1 of
  the spec: price 129.99, stock 30, quantity 2 give total 259.98 and stock 28.
\<close>

theorem make_sale_total_amount:
  assumes "make_sale e s db c (Some pid) (Some q) sp = (s', db', Inr (sid, tot))"
  shows "\<exists>row. select_product db pid = Some row \<and> tot = price row * q \<and>
           map total_amount (filter (\<lambda>r. sale_id r = sid) (Sale db')) = [price row * q]"
proof -
  from make_sale_success[OF assms] obtain cv row where
    row: "select_product db pid = Some row" and t: "tot = price row * q" and
    fr: "sid \<notin> set (map sale_id (Sale db))" and
    S: "Sale db' = Sale db @ [\<lparr>sale_id = sid, customer_id = cv, salesperson_id = nullif sp 0, sale_date = now e, total_amount = tot\<rparr>]"
    by auto
  from fr have "filter (\<lambda>r. sale_id r = sid) (Sale db) = []"
    by (auto simp: filter_empty_conv)
  with S t have "map total_amount (filter (\<lambda>r. sale_id r = sid) (Sale db')) = [price row * q]" by simp
  with row t show ?thesis by (intro exI[of _ row]) simp
qed

theorem make_sale_total_amount_witness:
  "snd (snd (make_sale scenario_env fresh_session scenario_db (Some 1) (Some 1) (Some 2) (Some 0))) = Inr (1, 25998) \<and>
   map total_amount (filter (\<lambda>r. sale_id r = 1) (Sale (fst (snd (make_sale scenario_env fresh_session scenario_db (Some 1) (Some 1) (Some 2) (Some 0)))))) = [25998] \<and>
   map_option stock (select_product (fst (snd (make_sale scenario_env fresh_session scenario_db (Some 1) (Some 1) (Some 2) (Some 0)))) 1) = Some 28"
proof -
  have "\<exists>s' db'. make_sale scenario_env fresh_session scenario_db (Some 1) (Some 1) (Some 2) (Some 0) = (s', db', Inr (1, 25998))
      \<and> map_option stock (select_product db' 1) = Some 28"
    by (simp add: stmt_defs scenario_defs)
  then obtain s' db' where r: "make_sale scenario_env fresh_session scenario_db (Some 1) (Some 1) (Some 2) (Some 0) = (s', db', Inr (1, 25998))"
    and st: "map_option stock (select_product db' 1) = Some 28"
    by blast
  have a: "select_product scenario_db 1 = Some \<lparr>product_id = 1, name = ''Item one'', category = ''Phone'', price = 12999,
           stock = 30, description = None\<rparr>"
    by (simp add: select_product_def scenario_defs)
  from make_sale_total_amount[OF r] a
  have "map total_amount (filter (\<lambda>r. sale_id r = 1) (Sale db')) = [25998]" by auto
  with r st show ?thesis by simp
qed

text \<open>
  When the trigger fires. A row counts as marked when the user variable of the
  inserting connection is neither \<^verbatim>\<open>NULL\<close> nor 0.
  \<^item> For a marked row the trigger changes nothing and raises nothing.
  \<^item> For any other row, with the item in the table under a unique key and no error
    of the server, the trigger takes the quantity of the new row from the stock of its
    item; when the difference is negative it fails instead (with the violated
    \<^verbatim>\<open>CHECK\<close> of Product where the server enforces it, with the signal "Stock cannot
    be negative" of the trigger otherwise), and the insertion that fired it fails too.
  \<^item> make_sale inserts its row with the variable set to 1, whatever the variable was
    before the call: the trigger does nothing for it, and the stock of the item after a
    successful call is its stock before minus the quantity.
\<close>

theorem stock_guard_fires_iff_unmarked:
  "(ifnull (from_make_sale s) 0 \<noteq> 0 \<longrightarrow> trg_sale_item_after_insert e s db new = Inr db) \<and>
   (ifnull (from_make_sale s) 0 = 0 \<and> \<not> fails e Update_Product \<and>
    distinct (map product_id (Product db)) \<and>
    select_product db (item_product_id new) = Some row \<and>
    int_range (stock row - quantity new) \<longrightarrow>
      trg_sale_item_after_insert e s db new =
        (if stock row - quantity new < 0
         then Inl (if check_constraints e then Check_Violated ''Product''
                   else Signal ''Stock cannot be negative'')
         else Inr (db\<lparr>Product :=
                     map (\<lambda>r. if product_id r = item_product_id new
                               then r\<lparr>stock := stock r - quantity new\<rparr> else r)
                       (Product db)\<rparr>))) \<and>
   (ifnull (from_make_sale s) 0 = 0 \<and> select_product db pid = Some row \<and> stock row < q \<longrightarrow>
      (\<exists>err. insert_sale_item e s db sid pid q pr = Inl err)) \<and>
   trg_sale_item_after_insert e (s\<lparr>from_make_sale := Some 1\<rparr>) db new = Inr db \<and>
   (make_sale e s db c (Some pid) (Some q) sp = (s', db', Inr out) \<longrightarrow>
      (\<exists>row. select_product db pid = Some row \<and>
         Sale_Item db' = Sale_Item db @
           [\<lparr>sale_item_id = new_sale_item_id e, item_sale_id = fst out, item_product_id = pid,
             quantity = q, item_price = price row\<rparr>] \<and>
         map_option stock (select_product db' pid) = Some (stock row - q)))"
proof (intro conjI impI)
  assume "ifnull (from_make_sale s) 0 \<noteq> 0"
  then show "trg_sale_item_after_insert e s db new = Inr db" by (rule trg_skipped)
next
  assume "ifnull (from_make_sale s) 0 = 0 \<and> \<not> fails e Update_Product \<and>
    distinct (map product_id (Product db)) \<and>
    select_product db (item_product_id new) = Some row \<and>
    int_range (stock row - quantity new)"
  then show "trg_sale_item_after_insert e s db new =
        (if stock row - quantity new < 0
         then Inl (if check_constraints e then Check_Violated ''Product''
                   else Signal ''Stock cannot be negative'')
         else Inr (db\<lparr>Product :=
                     map (\<lambda>r. if product_id r = item_product_id new
                               then r\<lparr>stock := stock r - quantity new\<rparr> else r)
                       (Product db)\<rparr>))"
    by (intro trg_fires) simp_all
next
  assume "ifnull (from_make_sale s) 0 = 0 \<and> select_product db pid = Some row \<and> stock row < q"
  then show "\<exists>err. insert_sale_item e s db sid pid q pr = Inl err"
    by (intro insert_sale_item_aborts[where row = row]) simp_all
next
  show "trg_sale_item_after_insert e (s\<lparr>from_make_sale := Some 1\<rparr>) db new = Inr db"
    by (simp add: trg_skipped ifnull_def)
next
  assume a: "make_sale e s db c (Some pid) (Some q) sp = (s', db', Inr out)"
  obtain sid tot where o: "out = (sid, tot)" by (cases out)
  from make_sale_success[OF a[unfolded o]] obtain row where
    row: "select_product db pid = Some row" and
    SI: "Sale_Item db' = Sale_Item db @ [\<lparr>sale_item_id = new_sale_item_id e, item_sale_id = sid, item_product_id = pid, quantity = q, item_price = price row\<rparr>]" and
    P: "Product db' = map (\<lambda>r. if product_id r = pid then r\<lparr>stock := stock r - q\<rparr> else r) (Product db)"
    by auto
  from row have k: "product_id row = pid" by (auto simp: select_product_def dest: find_key)
  have "map_option stock (select_product db' pid) = Some (stock row - q)"
    using row k by (simp add: select_product_def P find_update_stock)
  with row SI o show "\<exists>row. select_product db pid = Some row \<and>
         Sale_Item db' = Sale_Item db @
           [\<lparr>sale_item_id = new_sale_item_id e, item_sale_id = fst out, item_product_id = pid,
             quantity = q, item_price = price row\<rparr>] \<and>
         map_option stock (select_product db' pid) = Some (stock row - q)"
    by (intro exI[of _ row]) simp
qed

theorem stock_guard_fires_iff_unmarked_witness:
  "trg_sale_item_after_insert scenario_env fresh_session scenario_db
     \<lparr>sale_item_id = 1, item_sale_id = 1, item_product_id = 2, quantity = 6,
      item_price = 149900\<rparr> = Inl (Check_Violated ''Product'') \<and>
   trg_sale_item_after_insert (scenario_env\<lparr>check_constraints := False\<rparr>) fresh_session
     scenario_db
     \<lparr>sale_item_id = 1, item_sale_id = 1, item_product_id = 2, quantity = 6,
      item_price = 149900\<rparr> = Inl (Signal ''Stock cannot be negative'') \<and>
   trg_sale_item_after_insert scenario_env fresh_session scenario_db
     \<lparr>sale_item_id = 1, item_sale_id = 1, item_product_id = 2, quantity = 3,
      item_price = 149900\<rparr> =
     Inr (scenario_db\<lparr>Product :=
       [\<lparr>product_id = 1, name = ''Item one'', category = ''Phone'', price = 12999,
          stock = 30, description = None\<rparr>,
        \<lparr>product_id = 2, name = ''Item two'', category = ''Audio'', price = 149900,
          stock = 2, description = None\<rparr>]\<rparr>) \<and>
   trg_sale_item_after_insert scenario_env \<lparr>from_make_sale = Some 1\<rparr> scenario_db
     \<lparr>sale_item_id = 1, item_sale_id = 1, item_product_id = 2, quantity = 6,
      item_price = 149900\<rparr> = Inr scenario_db"
proof -
  let ?row = "\<lparr>product_id = 2, name = ''Item two'', category = ''Audio'', price = 149900,
           stock = 5, description = None\<rparr>"
  let ?new6 = "\<lparr>sale_item_id = 1, item_sale_id = 1, item_product_id = 2, quantity = 6,
      item_price = 149900\<rparr>"
  let ?new3 = "\<lparr>sale_item_id = 1, item_sale_id = 1, item_product_id = 2, quantity = 3,
      item_price = 149900\<rparr>"
  note t = stock_guard_fires_iff_unmarked
  have un: "ifnull (from_make_sale fresh_session) 0 = (0::int)"
    by (simp add: ifnull_def fresh_session_def)
  have nf: "\<not> fails scenario_env Update_Product"
    "\<not> fails (scenario_env\<lparr>check_constraints := False\<rparr>) Update_Product"
    "check_constraints scenario_env"
    "\<not> check_constraints (scenario_env\<lparr>check_constraints := False\<rparr>)"
    by (simp_all add: scenario_env_def)
  have d: "distinct (map product_id (Product scenario_db))" by (simp add: scenario_db_def)
  have r: "select_product scenario_db (item_product_id ?new6) = Some ?row"
    "select_product scenario_db (item_product_id ?new3) = Some ?row"
    by (simp_all add: select_product_def scenario_db_def)
  have rg: "int_range (stock ?row - quantity ?new6)" "int_range (stock ?row - quantity ?new3)"
    by (simp_all add: int_range_def)
  from t[of fresh_session scenario_env scenario_db ?new6 ?row] un nf d r rg
  have 1: "trg_sale_item_after_insert scenario_env fresh_session scenario_db ?new6
      = Inl (Check_Violated ''Product'')"
    by simp
  from t[of fresh_session "scenario_env\<lparr>check_constraints := False\<rparr>" scenario_db ?new6 ?row]
    un nf d r rg
  have 2: "trg_sale_item_after_insert (scenario_env\<lparr>check_constraints := False\<rparr>)
      fresh_session scenario_db ?new6 = Inl (Signal ''Stock cannot be negative'')"
    by simp
  from t[of fresh_session scenario_env scenario_db ?new3 ?row] un nf d r rg
  have 3: "trg_sale_item_after_insert scenario_env fresh_session scenario_db ?new3 =
     Inr (scenario_db\<lparr>Product :=
       [\<lparr>product_id = 1, name = ''Item one'', category = ''Phone'', price = 12999,
          stock = 30, description = None\<rparr>,
        \<lparr>product_id = 2, name = ''Item two'', category = ''Audio'', price = 149900,
          stock = 2, description = None\<rparr>]\<rparr>)"
    by (simp add: scenario_db_def)
  from t[of "\<lparr>from_make_sale = Some 1\<rparr>" scenario_env scenario_db ?new6]
  have 4: "trg_sale_item_after_insert scenario_env \<lparr>from_make_sale = Some 1\<rparr> scenario_db
     ?new6 = Inr scenario_db"
    by (simp add: ifnull_def)
  from 1 2 3 4 show ?thesis by simp
qed

text \<open>
  C6. The Stock Guard is to fire on every insertion into Sale_Item that bypasses
  make_sale (the trigger "enforces rule even if app bypasses procedure", as its comment
  says) and never on the insertion of make_sale itself. The second half holds, and the
  first holds on a connection whose user variable is \<^verbatim>\<open>NULL\<close> or 0 (the theorem above).
  But the variable marks the connection, not the row, and the exit handler of make_sale
  does not reset it: after a call whose \<^verbatim>\<open>INSERT INTO Sale_Item\<close> has failed (C10), an
  insertion that bypasses make_sale on the same connection is taken for the
  procedure's own, and the guard does not fire. Here the database holds the sale of
  the scenario. On connection 0 a call of make_sale fails at its \<^verbatim>\<open>INSERT\<close>; then a
  row of quantity 100 for item 2, of which 5 are in stock, is inserted on that
  connection: the row is accepted and the stock is still 5. The same insertion on
  connection 1 is refused by the guard.
\<close>

theorem stock_guard_skipped_after_failed_call:
  "tables (run \<lparr>tables = scenario_sold, connection = (\<lambda>_. fresh_session)\<rparr>
      [Call_make_sale 0
         (scenario_env\<lparr>fails := (\<lambda>x. x = Insert_Sale_Item), new_sale_id := 2\<rparr>)
         (Some 1) (Some 1) (Some 2) (Some 0),
       Insert_bypassing 0 (scenario_env\<lparr>new_sale_item_id := 2\<rparr>) 1 2 100 149900]) =
     scenario_sold\<lparr>Sale_Item := Sale_Item scenario_sold @
       [\<lparr>sale_item_id = 2, item_sale_id = 1, item_product_id = 2, quantity = 100,
         item_price = 149900\<rparr>]\<rparr> \<and>
   tables (run \<lparr>tables = scenario_sold, connection = (\<lambda>_. fresh_session)\<rparr>
      [Call_make_sale 0
         (scenario_env\<lparr>fails := (\<lambda>x. x = Insert_Sale_Item), new_sale_id := 2\<rparr>)
         (Some 1) (Some 1) (Some 2) (Some 0),
       Insert_bypassing 1 (scenario_env\<lparr>new_sale_item_id := 2\<rparr>) 1 2 100 149900]) =
     scenario_sold"
  by (simp add: run_def stmt_defs scenario_defs scenario_sold_def)

text \<open>
  C9. make_sale tests the quantity before any other statement: for a \<^verbatim>\<open>NULL\<close> or a
  quantity of 0 or less it ends with the signal "Quantity must be greater than 0",
  whatever the database holds and whatever the server would do at a statement, and
  database and session are as before. The parameter is an \<^verbatim>\<open>INT\<close>; a quantity that is
  not an integer is met by the route, which for a quantity that is no integer or is 0
  or less answers 400 before it sends any query: with "Invalid quantity" when customer
  and product are positive integers (the types of the interface of the spec), and with
  the message for the first invalid one of the two otherwise.
\<close>

theorem invalid_quantity_rejected_first:
  "((q = None \<or> (\<exists>n. q = Some n \<and> n \<le> 0)) \<longrightarrow>
      make_sale e s db c p q sp = (s, db, Inl (Signal ''Quantity must be greater than 0''))) \<and>
   ((\<not> isInteger (req_quantity req) \<or> le_zero (req_quantity req)) \<longrightarrow>
      (\<exists>msg. post_sale ip e s db req = (s, db, Error_Response 400 msg None)) \<and>
      (isInteger (req_customer_id req) \<and> \<not> le_zero (req_customer_id req) \<and>
       isInteger (req_product_id req) \<and> \<not> le_zero (req_product_id req) \<longrightarrow>
         post_sale ip e s db req = (s, db, Error_Response 400 ''Invalid quantity'' None)))"
proof (intro conjI impI)
  assume "q = None \<or> (\<exists>n. q = Some n \<and> n \<le> 0)"
  then show "make_sale e s db c p q sp = (s, db, Inl (Signal ''Quantity must be greater than 0''))"
    by (auto simp: make_sale_def make_sale_body_def)
next
  assume "\<not> isInteger (req_quantity req) \<or> le_zero (req_quantity req)"
  then show "\<exists>msg. post_sale ip e s db req = (s, db, Error_Response 400 msg None)"
    by (simp add: post_sale_def)
next
  assume "\<not> isInteger (req_quantity req) \<or> le_zero (req_quantity req)"
    and "isInteger (req_customer_id req) \<and> \<not> le_zero (req_customer_id req) \<and>
       isInteger (req_product_id req) \<and> \<not> le_zero (req_product_id req)"
  then show "post_sale ip e s db req = (s, db, Error_Response 400 ''Invalid quantity'' None)"
    by (simp add: post_sale_def)
qed

theorem invalid_quantity_rejected_first_witness:
  "make_sale scenario_env fresh_session scenario_db (Some 1) (Some 1) (Some 0) (Some 0) =
     (fresh_session, scenario_db, Inl (Signal ''Quantity must be greater than 0'')) \<and>
   post_sale (\<lambda>_. Inr 1) scenario_env fresh_session scenario_db
     \<lparr>req_customer_id = Finite 1, req_product_id = Finite 1, req_quantity = Finite (1 / 2),
      req_salesperson_id = NaN, payment_mode = ''CASH''\<rparr> =
     (fresh_session, scenario_db, Error_Response 400 ''Invalid quantity'' None) \<and>
   post_sale (\<lambda>_. Inr 1) scenario_env fresh_session scenario_db
     \<lparr>req_customer_id = Finite 1, req_product_id = Finite 1, req_quantity = Finite 0,
      req_salesperson_id = NaN, payment_mode = ''CASH''\<rparr> =
     (fresh_session, scenario_db, Error_Response 400 ''Invalid quantity'' None)"
proof -
  have i1: "isInteger (Finite 1)" and z1: "\<not> le_zero (Finite 1)"
    and h: "\<not> isInteger (Finite (1 / 2))" and z: "le_zero (Finite 0)"
    by code_simp+
  note t = invalid_quantity_rejected_first
  from t[of "Some 0" scenario_env fresh_session scenario_db "Some 1" "Some 1" "Some 0"]
  have 1: "make_sale scenario_env fresh_session scenario_db (Some 1) (Some 1) (Some 0) (Some 0) =
     (fresh_session, scenario_db, Inl (Signal ''Quantity must be greater than 0''))"
    by simp
  from t[of None scenario_env fresh_session scenario_db None None None
      "\<lparr>req_customer_id = Finite 1, req_product_id = Finite 1, req_quantity = Finite (1 / 2),
      req_salesperson_id = NaN, payment_mode = ''CASH''\<rparr>" "\<lambda>_. Inr 1"] i1 z1 h
  have 2: "post_sale (\<lambda>_. Inr 1) scenario_env fresh_session scenario_db
     \<lparr>req_customer_id = Finite 1, req_product_id = Finite 1, req_quantity = Finite (1 / 2),
      req_salesperson_id = NaN, payment_mode = ''CASH''\<rparr> =
     (fresh_session, scenario_db, Error_Response 400 ''Invalid quantity'' None)"
    by simp
  from t[of None scenario_env fresh_session scenario_db None None None
      "\<lparr>req_customer_id = Finite 1, req_product_id = Finite 1, req_quantity = Finite 0,
      req_salesperson_id = NaN, payment_mode = ''CASH''\<rparr>" "\<lambda>_. Inr 1"] i1 z1 z
  have 3: "post_sale (\<lambda>_. Inr 1) scenario_env fresh_session scenario_db
     \<lparr>req_customer_id = Finite 1, req_product_id = Finite 1, req_quantity = Finite 0,
      req_salesperson_id = NaN, payment_mode = ''CASH''\<rparr> =
     (fresh_session, scenario_db, Error_Response 400 ''Invalid quantity'' None)"
    by simp
  from 1 2 3 show ?thesis by simp
qed

text \<open>
  C10. When the \<^verbatim>\<open>INSERT INTO Sale_Item\<close> of make_sale fails (the statement between
  \<^verbatim>\<open>SET @from_make_sale := 1\<close> and \<^verbatim>\<open>SET @from_make_sale := 0\<close>), the handler rolls
  the database back and raises the error again, and the session keeps the variable at
  1. On that session the trigger then does nothing for any row, so that an insertion
  which bypasses make_sale only adds its row to Sale_Item: no stock is decremented and
  none is tested. The next call of make_sale that succeeds on the session leaves the
  variable at 0. The witness makes the server fail at that \<^verbatim>\<open>INSERT\<close>; afterwards the
  trigger lets a row of quantity 100 pass for an item of stock 5.
\<close>

theorem stale_coordination_flag:
  assumes "0 < q" and "\<not> fails e Select_Product"
    and "select_product db pid = Some row" and "q \<le> stock row"
    and "insert_sale e db c (nullif sp 0) = Inr (db1, sid)"
    and "insert_sale_item e (s\<lparr>from_make_sale := Some 1\<rparr>) db1 sid pid q (price row) = Inl err"
  shows "make_sale e s db c (Some pid) (Some q) sp = (s\<lparr>from_make_sale := Some 1\<rparr>, db, Inl err) \<and>
    (\<forall>e' db' new. trg_sale_item_after_insert e' (s\<lparr>from_make_sale := Some 1\<rparr>) db' new = Inr db') \<and>
    (\<forall>e' db' sid' pid' q' pr' db''.
       insert_sale_item e' (s\<lparr>from_make_sale := Some 1\<rparr>) db' sid' pid' q' pr' = Inr db'' \<longrightarrow>
       db'' = db'\<lparr>Sale_Item := Sale_Item db' @
                 [\<lparr>sale_item_id = new_sale_item_id e', item_sale_id = sid',
                   item_product_id = pid', quantity = q', item_price = pr'\<rparr>]\<rparr>) \<and>
    (\<forall>e' db' c' p' q' sp' s' db'' out.
       make_sale e' (s\<lparr>from_make_sale := Some 1\<rparr>) db' c' p' q' sp' = (s', db'', Inr out) \<longrightarrow>
       from_make_sale s' = Some 0)"
proof (intro conjI allI impI)
  show "make_sale e s db c (Some pid) (Some q) sp = (s\<lparr>from_make_sale := Some 1\<rparr>, db, Inl err)"
    using assms by (simp add: make_sale_def make_sale_body_def)
next
  fix e' db' new
  show "trg_sale_item_after_insert e' (s\<lparr>from_make_sale := Some 1\<rparr>) db' new = Inr db'"
    by (simp add: trg_skipped ifnull_def)
next
  fix e' db' sid' pid' q' pr' db''
  assume "insert_sale_item e' (s\<lparr>from_make_sale := Some 1\<rparr>) db' sid' pid' q' pr' = Inr db''"
  then show "db'' = db'\<lparr>Sale_Item := Sale_Item db' @
                 [\<lparr>sale_item_id = new_sale_item_id e', item_sale_id = sid',
                   item_product_id = pid', quantity = q', item_price = pr'\<rparr>]\<rparr>"
    by (intro insert_sale_item_marked_eq) (simp_all add: ifnull_def)
next
  fix e' db' c' p' q' sp' s' db'' out
  assume a: "make_sale e' (s\<lparr>from_make_sale := Some 1\<rparr>) db' c' p' q' sp' = (s', db'', Inr out)"
  obtain x y where "out = (x, y)" by (cases out)
  with a have "make_sale e' (s\<lparr>from_make_sale := Some 1\<rparr>) db' c' p' q' sp' = (s', db'', Inr (x, y))" by simp
  from make_sale_success[OF this] have "s' = s\<lparr>from_make_sale := Some 1, from_make_sale := Some 0\<rparr>"
    by (elim exE conjE)
  then show "from_make_sale s' = Some 0" by simp
qed

theorem stale_coordination_flag_witness:
  "make_sale (scenario_env\<lparr>fails := (\<lambda>x. x = Insert_Sale_Item)\<rparr>) fresh_session scenario_db
     (Some 1) (Some 1) (Some 2) (Some 0) =
     (\<lparr>from_make_sale = Some 1\<rparr>, scenario_db, Inl (Server_Error Insert_Sale_Item)) \<and>
   trg_sale_item_after_insert scenario_env \<lparr>from_make_sale = Some 1\<rparr> scenario_db
     \<lparr>sale_item_id = 1, item_sale_id = 1, item_product_id = 2, quantity = 100,
      item_price = 149900\<rparr> = Inr scenario_db"
proof -
  let ?e = "scenario_env\<lparr>fails := (\<lambda>x. x = Insert_Sale_Item)\<rparr>"
  let ?row = "\<lparr>product_id = 1, name = ''Item one'', category = ''Phone'', price = 12999,
           stock = 30, description = None\<rparr>"
  let ?db1 = "scenario_db\<lparr>Sale := Sale scenario_db @
      [\<lparr>sale_id = 1, customer_id = 1, salesperson_id = None, sale_date = 0,
        total_amount = 0\<rparr>]\<rparr>"
  have 1: "(0::int) < 2" by simp
  have 2: "\<not> fails ?e Select_Product" by (simp add: scenario_env_def)
  have 3: "select_product scenario_db 1 = Some ?row"
    by (simp add: select_product_def scenario_db_def)
  have 4: "2 \<le> stock ?row" by simp
  have 5: "insert_sale ?e scenario_db (Some 1) (nullif (Some 0) 0) = Inr (?db1, 1)"
    by (simp add: insert_sale_def nullif_def scenario_defs)
  have 6: "insert_sale_item ?e (fresh_session\<lparr>from_make_sale := Some 1\<rparr>) ?db1 1 1 2 (price ?row)
      = Inl (Server_Error Insert_Sale_Item)"
    by (simp add: insert_sale_item_def scenario_env_def)
  from stale_coordination_flag[OF 1 2 3 4 5 6]
  have "make_sale ?e fresh_session scenario_db (Some 1) (Some 1) (Some 2) (Some 0) =
     (fresh_session\<lparr>from_make_sale := Some 1\<rparr>, scenario_db, Inl (Server_Error Insert_Sale_Item))"
    and "trg_sale_item_after_insert scenario_env (fresh_session\<lparr>from_make_sale := Some 1\<rparr>)
     scenario_db \<lparr>sale_item_id = 1, item_sale_id = 1, item_product_id = 2, quantity = 100,
      item_price = 149900\<rparr> = Inr scenario_db"
    by simp_all
  then show ?thesis by (simp add: fresh_session_def)
qed

section \<open>The claims about what later events leave in place\<close>

text \<open>
  C7. The row that a successful make_sale adds to Sale_Item carries the price of the
  item as the \<^verbatim>\<open>SELECT ... FOR UPDATE\<close> of the call read it, and whatever happens later
  on the server (further sales on any connection, requests to the route, insertions
  that bypass make_sale, updates of payment modes, any write to the table Product such
  as a change of the price of the item),
  that row stays the one row of Sale_Item with its key, with the same price. The
  witness changes the price of the item from 129.99 to 99.99 after the sale; the line
  item keeps 129.99.
\<close>

theorem line_item_price_snapshot:
  assumes "make_sale e s db c (Some pid) (Some q) sp = (s', db', Inr (sid, tot))"
  shows "\<exists>row. select_product db pid = Some row \<and>
     (\<forall>sv evs. tables sv = db' \<longrightarrow>
        filter (\<lambda>r. sale_item_id r = new_sale_item_id e) (Sale_Item (tables (run sv evs))) =
          [\<lparr>sale_item_id = new_sale_item_id e, item_sale_id = sid, item_product_id = pid,
            quantity = q, item_price = price row\<rparr>])"
proof -
  from make_sale_success[OF assms] obtain row where
    row: "select_product db pid = Some row" and
    fr: "new_sale_item_id e \<notin> set (map sale_item_id (Sale_Item db))" and
    SI: "Sale_Item db' = Sale_Item db @ [\<lparr>sale_item_id = new_sale_item_id e, item_sale_id = sid,
       item_product_id = pid, quantity = q, item_price = price row\<rparr>]"
    by auto
  let ?new = "\<lparr>sale_item_id = new_sale_item_id e, item_sale_id = sid,
       item_product_id = pid, quantity = q, item_price = price row\<rparr>"
  from fr have "filter (\<lambda>r. sale_item_id r = new_sale_item_id e) (Sale_Item db) = []"
    by (rule filter_fresh)
  with SI have now: "filter (\<lambda>r. sale_item_id r = new_sale_item_id e) (Sale_Item db') = [?new]"
    by simp
  have "\<forall>sv evs. tables sv = db' \<longrightarrow>
        filter (\<lambda>r. sale_item_id r = new_sale_item_id e) (Sale_Item (tables (run sv evs))) = [?new]"
  proof (intro allI impI)
    fix sv :: server and evs
    assume "tables sv = db'"
    with now have "filter (\<lambda>r. sale_item_id r = new_sale_item_id e) (Sale_Item (tables sv)) = [?new]"
      by simp
    then show "filter (\<lambda>r. sale_item_id r = new_sale_item_id e) (Sale_Item (tables (run sv evs))) = [?new]"
      by (rule line_item_kept)
  qed
  with row show ?thesis by (intro exI[of _ row]) simp
qed

theorem line_item_price_snapshot_witness:
  "filter (\<lambda>r. sale_item_id r = 1)
     (Sale_Item (tables (run \<lparr>tables = scenario_sold, connection = (\<lambda>_. fresh_session)\<rparr>
        [Catalog_write (map (\<lambda>r. if product_id r = 1 then r\<lparr>price := 9999\<rparr> else r))]))) =
     [\<lparr>sale_item_id = 1, item_sale_id = 1, item_product_id = 1, quantity = 2,
       item_price = 12999\<rparr>] \<and>
   map price (Product (tables (run \<lparr>tables = scenario_sold, connection = (\<lambda>_. fresh_session)\<rparr>
        [Catalog_write (map (\<lambda>r. if product_id r = 1 then r\<lparr>price := 9999\<rparr> else r))]))) = [9999, 149900]"
proof -
  have k: "new_sale_item_id scenario_env = 1" by (simp add: scenario_env_def)
  from line_item_price_snapshot[OF scenario_sale] scenario_item_one k
  have 1: "filter (\<lambda>r. sale_item_id r = 1)
     (Sale_Item (tables (run \<lparr>tables = scenario_sold, connection = (\<lambda>_. fresh_session)\<rparr>
        [Catalog_write (map (\<lambda>r. if product_id r = 1 then r\<lparr>price := 9999\<rparr> else r))]))) =
     [\<lparr>sale_item_id = 1, item_sale_id = 1, item_product_id = 1, quantity = 2,
       item_price = 12999\<rparr>]"
    by simp
  have 2: "map price (Product (tables (run \<lparr>tables = scenario_sold, connection = (\<lambda>_. fresh_session)\<rparr>
        [Catalog_write (map (\<lambda>r. if product_id r = 1 then r\<lparr>price := 9999\<rparr> else r))]))) = [9999, 149900]"
    by (simp add: run_def scenario_sold_def)
  from 1 2 show ?thesis by simp
qed

text \<open>
  C8. In a database where every sale has exactly one payment and every payment belongs
  to a sale, no sequence of events changes that. A successful make_sale adds exactly
  one row to Payment, for the new sale, with mode CASH and status SUCCESS, and it is the
  only payment of that sale; a failed call adds none. The route changes the payments
  only through make_sale and the update of a mode; an insertion into Sale_Item that
  bypasses make_sale, the update of a payment mode and a write to the catalog leave the
  keys, sales and statuses of all payments as they are.
\<close>

theorem one_payment_per_sale:
  "(payments_ok (tables sv) \<longrightarrow> payments_ok (tables (run sv evs))) \<and>
   (payments_ok db \<and> make_sale e s db c p q sp = (s', db', Inr (sid, tot)) \<longrightarrow>
      Payment db' = Payment db @
        [\<lparr>payment_id = new_payment_id e, payment_sale_id = sid, mode = ''CASH'',
          status = ''SUCCESS''\<rparr>] \<and>
      filter (\<lambda>p. payment_sale_id p = sid) (Payment db') =
        [\<lparr>payment_id = new_payment_id e, payment_sale_id = sid, mode = ''CASH'',
          status = ''SUCCESS''\<rparr>]) \<and>
   (make_sale e s db c p q sp = (s', db', Inl err) \<longrightarrow> Payment db' = Payment db) \<and>
   (post_sale ip e s db req = (s2, db2, r) \<longrightarrow>
      payment_keys db2 = payment_keys db \<or>
      (\<exists>c p q sp s1 db1 out. make_sale e s db c p q sp = (s1, db1, Inr out) \<and>
         payment_keys db2 = payment_keys db1)) \<and>
   payment_keys (tables (step sv (Insert_bypassing cn e sid' pid q' pr))) =
     payment_keys (tables sv) \<and>
   payment_keys (tables (step sv (Set_payment_mode e m sid'))) = payment_keys (tables sv) \<and>
   payment_keys (tables (step sv (Catalog_write f))) = payment_keys (tables sv)"
proof (intro conjI impI)
  assume "payments_ok (tables sv)"
  then show "payments_ok (tables (run sv evs))" by (rule payments_ok_run)
next
  assume a: "payments_ok db \<and> make_sale e s db c p q sp = (s', db', Inr (sid, tot))"
  then have ok: "payments_ok db" and m: "make_sale e s db c p q sp = (s', db', Inr (sid, tot))"
    by simp_all
  from make_sale_success[OF m] have
    fr: "sid \<notin> set (map sale_id (Sale db))" and
    P: "Payment db' = Payment db @ [\<lparr>payment_id = new_payment_id e, payment_sale_id = sid,
         mode = ''CASH'', status = ''SUCCESS''\<rparr>]"
    by auto
  from P show "Payment db' = Payment db @ [\<lparr>payment_id = new_payment_id e, payment_sale_id = sid,
         mode = ''CASH'', status = ''SUCCESS''\<rparr>]" .
  from ok have fk: "\<And>p. p \<in> set (Payment db) \<Longrightarrow> payment_sale_id p \<in> set (map sale_id (Sale db))"
    by (auto simp: payments_ok_def list_all_iff)
  have "filter (\<lambda>p. payment_sale_id p = sid) (Payment db) = []"
    using fk fr by (auto simp: filter_empty_conv)
  then show "filter (\<lambda>p. payment_sale_id p = sid) (Payment db') =
        [\<lparr>payment_id = new_payment_id e, payment_sale_id = sid, mode = ''CASH'',
          status = ''SUCCESS''\<rparr>]"
    by (simp add: P)
next
  assume "make_sale e s db c p q sp = (s', db', Inl err)"
  then show "Payment db' = Payment db" by (auto dest: make_sale_error_keeps_db)
next
  assume "post_sale ip e s db req = (s2, db2, r)"
  then show "payment_keys db2 = payment_keys db \<or>
      (\<exists>c p q sp s1 db1 out. make_sale e s db c p q sp = (s1, db1, Inr out) \<and>
         payment_keys db2 = payment_keys db1)"
    by (rule post_sale_payment_keys)
qed (rule step_non_sale_payment_keys)+

theorem one_payment_per_sale_witness:
  "payments_ok (tables (run \<lparr>tables = scenario_db, connection = (\<lambda>_. fresh_session)\<rparr>
      [Call_make_sale 0 scenario_env (Some 1) (Some 1) (Some 2) (Some 0),
       Set_payment_mode scenario_env ''UPI'' 1])) \<and>
   Payment (tables (run \<lparr>tables = scenario_db, connection = (\<lambda>_. fresh_session)\<rparr>
      [Call_make_sale 0 scenario_env (Some 1) (Some 1) (Some 2) (Some 0),
       Set_payment_mode scenario_env ''UPI'' 1])) =
     [\<lparr>payment_id = 1, payment_sale_id = 1, mode = ''UPI'', status = ''SUCCESS''\<rparr>]"
proof -
  let ?sv = "\<lparr>tables = scenario_db, connection = (\<lambda>_. fresh_session)\<rparr>"
  let ?evs = "[Call_make_sale 0 scenario_env (Some 1) (Some 1) (Some 2) (Some 0),
       Set_payment_mode scenario_env ''UPI'' 1]"
  have "payments_ok (tables ?sv)" by (simp add: payments_ok_def scenario_db_def)
  with one_payment_per_sale[of ?sv ?evs] have 1: "payments_ok (tables (run ?sv ?evs))"
    by simp
  have 2: "Payment (tables (run ?sv ?evs)) =
     [\<lparr>payment_id = 1, payment_sale_id = 1, mode = ''UPI'', status = ''SUCCESS''\<rparr>]"
    by (simp add: run_def scenario_sale)
       (simp add: update_payment_mode_def scenario_env_def scenario_sold_def)
  from 1 2 show ?thesis by simp
qed

section \<open>The claim about concurrent calls\<close>

text \<open>
  C1. Start from a server on which no call runs, with a unique key and no negative
  stock in Product. After any interleaving of steps of concurrent connections (calls
  of make_sale carried out statement by statement, under any conditions of the server
  at each statement, and insertions into Sale_Item that bypass make_sale and fire the
  trigger), no row of Product has a negative stock: neither as the storage engine
  holds the rows, with the changes of transactions that are still running, nor as other
  connections read them, without those changes. Every prefix of an interleaving is an
  interleaving, so this holds before and after every call and every guarded write.
\<close>

theorem stock_never_negative:
  assumes "products_ok (store cs)" and "\<forall>c. running cs c = None"
  shows "list_all (\<lambda>r. 0 \<le> stock r) (Product (store (interleave cs acts))) \<and>
         list_all (\<lambda>r. 0 \<le> stock r) (Product (committed (interleave cs acts)))"
proof -
  from assms have "calls_ok cs" by (simp add: calls_ok_def)
  then have ok: "calls_ok (interleave cs acts)" by (rule calls_ok_interleave)
  then have "products_ok (store (interleave cs acts))" by (simp add: calls_ok_def)
  moreover from ok have "products_ok (committed (interleave cs acts))"
    by (rule products_ok_committed)
  ultimately show ?thesis by (simp add: products_ok_def)
qed

theorem stock_never_negative_witness:
  "map stock (Product (store (interleave scenario_server scenario_race))) = [30, 0] \<and>
   list_all (\<lambda>r. 0 \<le> stock r) (Product (store (interleave scenario_server scenario_race))) \<and>
   list_all (\<lambda>r. 0 \<le> stock r) (Product (committed (interleave scenario_server scenario_race)))"
proof -
  have 1: "products_ok (store scenario_server)"
    by (simp add: scenario_server_def scenario_db_def products_ok_def)
  have 2: "\<forall>c. running scenario_server c = None"
    by (simp add: scenario_server_def)
  have 3: "map stock (Product (store (interleave scenario_server scenario_race))) = [30, 0]"
    by (simp add: interleave_def scenario_race_def scenario_server_def step_defs stmt_defs
        scenario_defs)
  from stock_never_negative[OF 1 2, of scenario_race] 3 show ?thesis by simp
qed

end
